theory Spec2Isabelle
  imports Main "HOL-Library.Word"
begin

section \<open>EFI file system access (src/efifile.c)\<close>

text \<open>
  A shallow embedding of \<^verbatim>\<open>efifile.c\<close>. Memory that the C code reaches through a
  pointer is a list of the cells that exist there; a read or write of a cell that does
  not exist is the error value \<open>Out_of_bounds\<close>. A call of \<^verbatim>\<open>die\<close> is an error value
  that carries what the message prints. \<^verbatim>\<open>size_t\<close>, \<^verbatim>\<open>UINTN\<close>, \<^verbatim>\<open>UINT64\<close> and
  \<^verbatim>\<open>EFI_STATUS\<close> are 64-bit words, \<^verbatim>\<open>CHAR16\<close> is a 16-bit word, and
  \<^verbatim>\<open>wchar_t\<close> is the same 16-bit type: the code hands \<^verbatim>\<open>CHAR16 *\<close> names to
  \<^verbatim>\<open>wcscasecmp\<close> and \<^verbatim>\<open>wcslen\<close> and sizes a \<^verbatim>\<open>CHAR16\<close> buffer with
  \<^verbatim>\<open>sizeof ( wchar_t )\<close>. Multi-byte values are little-endian.
\<close>

subsection \<open>Types and errors\<close>

type_synonym byte = "8 word"
type_synonym wchar = "16 word"
type_synonym size_t = "64 word"
type_synonym efi_status = "64 word"

datatype error =
    Out_of_bounds
  | Die_set_file_position efi_status
  | Die_read_from_file efi_status
  | Die_open_simple_file_system efi_status
  | Die_open_root_directory efi_status
  | Die_read_root_directory efi_status
  | Die_too_many_files
  | Die_open "wchar list" efi_status
  | Die_no_boot_file "wchar list"

definition sizeof_wchar_t :: nat where
  "sizeof_wchar_t = 2"

text \<open>A wide string literal \<^verbatim>\<open>L"..."\<close>: its characters, without the terminating NUL.\<close>

definition L :: "string \<Rightarrow> wchar list" where
  "L s = map of_char s"

text \<open>\<^verbatim>\<open>sizeof\<close> of an array initialised from a wide string literal counts the NUL.\<close>

definition sizeof_wstr :: "wchar list \<Rightarrow> nat" where
  "sizeof_wstr s = (length s + 1) * sizeof_wchar_t"

subsection \<open>Wide-character library functions\<close>

text \<open>
  Modelled from the spec: \<^verbatim>\<open>towupper\<close>, \<^verbatim>\<open>wcscasecmp\<close> and \<^verbatim>\<open>wcslen\<close> are declared in
  \<^verbatim>\<open>wchar.h\<close> and defined outside \<^verbatim>\<open>efifile.c\<close>. The spec asks for a
  case-insensitive comparison of wide strings in which the terminator is compared too.
  Case folding maps the letters a-z to A-Z and leaves every other code unit alone. The
  first string is read from memory, one code unit at a time, up to the first difference
  or the NUL; \<open>str1 k\<close> is the code unit \<open>k\<close> places after the pointer, \<open>None\<close> where
  no memory is. The second string is a constant: a list with an implied NUL after it.
  The result is the difference of the two folded code units where the comparison stops,
  so it is 0 exactly for equal strings.
\<close>

definition towupper :: "wchar \<Rightarrow> wchar" where
  "towupper c = (if 0x61 \<le> c \<and> c \<le> 0x7A then c - 0x20 else c)"

fun wcscasecmp :: "(nat \<Rightarrow> wchar option) \<Rightarrow> wchar list \<Rightarrow> error + int" where
  "wcscasecmp str1 [] =
     (case str1 0 of
        None \<Rightarrow> Inl Out_of_bounds
      | Some c \<Rightarrow> Inr (uint (towupper c) - 0))"
| "wcscasecmp str1 (s # str2) =
     (case str1 0 of
        None \<Rightarrow> Inl Out_of_bounds
      | Some c \<Rightarrow>
          if towupper c \<noteq> 0 \<and> towupper c = towupper s
          then wcscasecmp (\<lambda>k. str1 (Suc k)) str2
          else Inr (uint (towupper c) - uint (towupper s)))"

text \<open>\<^verbatim>\<open>wcslen\<close> on a buffer: the number of code units before the first NUL.\<close>

fun wcslen :: "wchar list \<Rightarrow> error + nat" where
  "wcslen [] = Inl Out_of_bounds"
| "wcslen (c # cs) =
     (if c = 0 then Inr 0
      else case wcslen cs of Inl e \<Rightarrow> Inl e | Inr n \<Rightarrow> Inr (Suc n))"

subsection \<open>Byte buffers\<close>

text \<open>A 16-bit load from byte offset \<open>j\<close> of a buffer, and the bytes of a wide string.\<close>

definition wchar_of_bytes :: "byte \<Rightarrow> byte \<Rightarrow> wchar" where
  "wchar_of_bytes lo hi = word_of_nat (unat lo + 256 * unat hi)"

definition load_wchar :: "byte list \<Rightarrow> nat \<Rightarrow> wchar option" where
  "load_wchar data j =
     (if j + 1 < length data then Some (wchar_of_bytes (data ! j) (data ! (j + 1)))
      else None)"

fun bytes_of_wstr :: "wchar list \<Rightarrow> byte list" where
  "bytes_of_wstr [] = []"
| "bytes_of_wstr (c # cs) = ucast c # ucast (drop_bit 8 c) # bytes_of_wstr cs"

text \<open>\<^verbatim>\<open>memcpy ( data + i, src, n )\<close> with \<open>n = length src\<close>.\<close>

definition memcpy :: "'a list \<Rightarrow> nat \<Rightarrow> 'a list \<Rightarrow> error + 'a list" where
  "memcpy data i src =
     (if i + length src \<le> length data
      then Inr (take i data @ src @ drop (i + length src) data)
      else Inl Out_of_bounds)"

subsection \<open>Patch BCD file\<close>

definition search :: "wchar list" where
  "search = L ''.exe''"

definition replace :: "wchar list" where
  "replace = L ''.efi''"

text \<open>
  The loop of \<^verbatim>\<open>efi_patch_bcd\<close>, from index \<open>i\<close> on; \<open>bound\<close> is the value of
  \<^verbatim>\<open>len - sizeof ( search )\<close>. The index cannot wrap: it stays below \<open>bound\<close>.
\<close>

function patch_loop :: "nat \<Rightarrow> nat \<Rightarrow> byte list \<Rightarrow> error + byte list" where
  "patch_loop bound i data =
     (if i < bound then
        (case wcscasecmp (\<lambda>k. load_wchar data (i + sizeof_wchar_t * k)) search of
           Inl e \<Rightarrow> Inl e
         | Inr r \<Rightarrow>
             if r = 0 then
               (case memcpy data i (bytes_of_wstr (replace @ [0])) of
                  Inl e \<Rightarrow> Inl e
                | Inr data' \<Rightarrow> patch_loop bound (i + 1) data')
             else patch_loop bound (i + 1) data)
      else Inr data)"
  by pat_completeness auto
termination
  by (relation "measure (\<lambda>(bound, i, data). bound - i)") auto

text \<open>
  \<^verbatim>\<open>efi_patch_bcd ( vfile, data, offset, len )\<close>. \<open>data\<close> is the memory at the pointer,
  \<open>len\<close> the length the caller passes; the subtraction is the unsigned one of
  \<^verbatim>\<open>size_t\<close>. \<open>offset\<close> only appears in the debug message.
\<close>

definition efi_patch_bcd :: "bool \<Rightarrow> byte list \<Rightarrow> size_t \<Rightarrow> size_t \<Rightarrow> error + byte list" where
  "efi_patch_bcd cmdline_rawbcd data offset len =
     (if cmdline_rawbcd then Inr data
      else patch_loop (unat (len - word_of_nat (sizeof_wstr search))) 0 data)"

subsection \<open>Read from EFI file\<close>

text \<open>
  The firmware's file object. \<open>SetPosition offset\<close> is the status of the call;
  \<open>Read position size\<close> is the status of a read of \<open>size\<close> bytes at \<open>position\<close>
  and the bytes the firmware delivers into the buffer (it writes back their number
  through \<^verbatim>\<open>&size\<close>, and never more than it was asked for).
\<close>

record efi_file_protocol =
  SetPosition :: "size_t \<Rightarrow> efi_status"
  Read :: "size_t \<Rightarrow> size_t \<Rightarrow> efi_status \<times> byte list"

definition efi_read_file ::
  "efi_file_protocol \<Rightarrow> byte list \<Rightarrow> size_t \<Rightarrow> size_t \<Rightarrow> error + byte list" where
  "efi_read_file file data offset len =
     (let efirc = SetPosition file offset
      in if efirc \<noteq> 0 then Inl (Die_set_file_position efirc)
         else
           let (efirc, delivered) = Read file offset len
           in if efirc \<noteq> 0 then Inl (Die_read_from_file efirc)
              else memcpy data 0 (take (unat len) delivered))"

subsection \<open>Extract files from EFI file system\<close>

text \<open>
  The constants that \<^verbatim>\<open>efifile.c\<close> takes from its headers are parameters:
  the characters of the wide string \<^verbatim>\<open>EFI_REMOVABLE_MEDIA_FILE_NAME\<close>,
  \<^verbatim>\<open>VDISK_MAX_FILES\<close>, and \<^verbatim>\<open>sizeof ( vfile->name )\<close>, which is also the number of
  code units of \<^verbatim>\<open>bootmgfw\<close> and of \<^verbatim>\<open>info.name\<close>.
\<close>

record config =
  EFI_REMOVABLE_MEDIA_FILE_NAME :: "wchar list"
  VDISK_MAX_FILES :: nat
  sizeof_name :: nat

text \<open>
  \<^verbatim>\<open>efi_bootarch\<close>. A pointer into \<^verbatim>\<open>bootarch_full\<close> is the rest of the characters
  from there on; the loop stops at the NUL.
\<close>

fun efi_bootarch_loop :: "wchar list \<Rightarrow> wchar list \<Rightarrow> wchar list" where
  "efi_bootarch_loop [] bootarch = bootarch"
| "efi_bootarch_loop (c # tmp) bootarch =
     (if c = 0 then bootarch
      else if c = 0x5C then efi_bootarch_loop tmp tmp
      else efi_bootarch_loop tmp bootarch)"

definition efi_bootarch :: "config \<Rightarrow> wchar list" where
  "efi_bootarch cfg =
     efi_bootarch_loop (EFI_REMOVABLE_MEDIA_FILE_NAME cfg) (EFI_REMOVABLE_MEDIA_FILE_NAME cfg)"

text \<open>
  The record \<^verbatim>\<open>info\<close> that \<^verbatim>\<open>root->Read\<close> fills, as far as the code looks at it:
  \<open>FileSize\<close>; \<open>FileName\<close>, the code units from \<^verbatim>\<open>info.file.FileName\<close> to the end of
  \<^verbatim>\<open>info\<close> (the name, its NUL and whatever follows it); and \<open>info_header\<close>, the code
  units of \<^verbatim>\<open>info.file\<close> that lie before \<^verbatim>\<open>FileName\<close>. \<open>info_unit info k\<close> is the
  code unit at \<^verbatim>\<open>name + k\<close>, for a \<open>k\<close> that may be negative.
\<close>

record efi_file_info =
  FileSize :: "64 word"
  info_header :: "wchar list"
  FileName :: "wchar list"

definition info_unit :: "efi_file_info \<Rightarrow> int \<Rightarrow> wchar option" where
  "info_unit info k =
     (if 0 \<le> k then
        (if nat k < length (FileName info) then Some (FileName info ! nat k) else None)
      else
        (if nat (- k) \<le> length (info_header info)
         then Some (info_header info ! (length (info_header info) - nat (- k)))
         else None))"

text \<open>The string that a buffer holds: its code units before the first NUL.\<close>

definition wstr :: "wchar list \<Rightarrow> wchar list" where
  "wstr buf = takeWhile (\<lambda>c. c \<noteq> 0) buf"

text \<open>
  One turn of the firmware in the directory loop: the status and the size that
  \<^verbatim>\<open>root->Read\<close> returns, the record it fills, and the status and the file that
  \<^verbatim>\<open>root->Open\<close> returns for that name.
\<close>

record root_read =
  read_efirc :: efi_status
  read_size :: "64 word"
  read_info :: efi_file_info
  open_efirc :: efi_status
  open_file :: nat

datatype read_fn = Efi_read_file
datatype patch_fn = Efi_patch_bcd | Patch_wim

text \<open>
  \<^verbatim>\<open>struct vdisk_file\<close>; \<open>vf_name\<close> is the string in the \<^verbatim>\<open>name\<close> array, and a null
  function pointer is \<open>None\<close>.
\<close>

record vdisk_file =
  vf_name :: "byte list"
  vf_opaque :: nat
  vf_len :: size_t
  vf_read :: "read_fn option"
  vf_patch :: "patch_fn option"

text \<open>The globals \<^verbatim>\<open>vdisk_files\<close> and \<^verbatim>\<open>bootmgfw\<close>, and the local \<^verbatim>\<open>idx\<close>.\<close>

record extract_state =
  vdisk_files :: "vdisk_file list"
  bootmgfw :: "wchar list"
  idx :: nat

text \<open>A run either ends in an error, with the state at that moment, or returns a state.\<close>

type_synonym result = "(error \<times> extract_state) + extract_state"

text \<open>
  Modelled from the spec: \<^verbatim>\<open>snprintf\<close> with the format \<^verbatim>\<open>"%ls"\<close> is defined outside
  \<^verbatim>\<open>efifile.c\<close>. The spec has the name stored narrowed to one byte per character and
  bounded by the size of the array, which keeps room for the NUL.
\<close>

definition snprintf_ls :: "nat \<Rightarrow> wchar list \<Rightarrow> byte list" where
  "snprintf_ls n name = take (n - 1) (map ucast name)"

text \<open>
  \<^verbatim>\<open>memcpy ( bootmgfw, name, ( sizeof ( bootmgfw ) - sizeof ( wchar_t ) ) )\<close>, counted
  in code units. An array has at least one element, so the subtraction does not go
  below zero; the properties ask for \<open>1 \<le> sizeof_name cfg\<close>.
\<close>

definition sizeof_bootmgfw :: "config \<Rightarrow> nat" where
  "sizeof_bootmgfw cfg = sizeof_name cfg * sizeof_wchar_t"

text \<open>
  A step that reads memory: an access outside it ends the run, in the state in which it
  happens.
\<close>

definition on_result :: "error + 'a \<Rightarrow> extract_state \<Rightarrow> ('a \<Rightarrow> result) \<Rightarrow> result" where
  "on_result r st f = (case r of Inl e \<Rightarrow> Inl (e, st) | Inr v \<Rightarrow> f v)"

definition copy_bootmgfw :: "config \<Rightarrow> efi_file_info \<Rightarrow> extract_state \<Rightarrow> result" where
  "copy_bootmgfw cfg info st =
     (let n = (sizeof_bootmgfw cfg - sizeof_wchar_t) div sizeof_wchar_t
      in if length (FileName info) < n then Inl (Out_of_bounds, st)
         else on_result (memcpy (bootmgfw st) 0 (take n (FileName info))) st
                (\<lambda>b. Inr (st\<lparr>bootmgfw := b\<rparr>)))"

definition set_patch :: "nat \<Rightarrow> patch_fn \<Rightarrow> extract_state \<Rightarrow> extract_state" where
  "set_patch i p st =
     st\<lparr>vdisk_files := (vdisk_files st)[i := (vdisk_files st ! i)\<lparr>vf_patch := Some p\<rparr>]\<rparr>"

text \<open>
  The check for special-case files, for the file just added at index \<open>i\<close>. The last test
  starts at \<^verbatim>\<open>name + ( wcslen ( name ) - 4 )\<close>; the subtraction is the unsigned one of
  \<^verbatim>\<open>size_t\<close>, and adding the wrapped value to the pointer moves it back.
\<close>

definition wim_suffix_start :: "nat \<Rightarrow> int" where
  "wim_suffix_start n = sint (word_of_nat n - 4 :: size_t)"

definition special_case_files :: "config \<Rightarrow> efi_file_info \<Rightarrow> nat \<Rightarrow> extract_state \<Rightarrow> result" where
  "special_case_files cfg info i st =
     (let name = (\<lambda>k. info_unit info (int k)) in
      on_result (wcscasecmp name (efi_bootarch cfg)) st (\<lambda>r1.
      if r1 = 0 then copy_bootmgfw cfg info st else
      on_result (wcscasecmp name (L ''bootmgfw.efi'')) st (\<lambda>r2.
      if r2 = 0 then copy_bootmgfw cfg info st else
      on_result (wcscasecmp name (L ''BCD'')) st (\<lambda>r3.
      if r3 = 0 then Inr (set_patch i Efi_patch_bcd st) else
      on_result (wcslen (FileName info)) st (\<lambda>n.
      on_result (wcscasecmp (\<lambda>k. info_unit info (wim_suffix_start n + int k)) (L ''.wim'')) st (\<lambda>r4.
      if r4 = 0 then Inr (set_patch i Patch_wim st) else Inr st))))))"

text \<open>
  One pass of the loop body after a successful read of a directory entry: the sanity
  check, \<^verbatim>\<open>root->Open\<close>, the new entry of \<^verbatim>\<open>vdisk_files\<close> and the special cases.
\<close>

definition add_file :: "config \<Rightarrow> root_read \<Rightarrow> extract_state \<Rightarrow> result" where
  "add_file cfg r st =
     (let info = read_info r in
      if VDISK_MAX_FILES cfg \<le> idx st then Inl (Die_too_many_files, st)
      else if open_efirc r \<noteq> 0
        then Inl (Die_open (wstr (FileName info)) (open_efirc r), st)
      else if length (vdisk_files st) \<le> idx st then Inl (Out_of_bounds, st)
      else
        on_result (wcslen (FileName info)) st (\<lambda>n.
          let vfile = (vdisk_files st ! idx st)
                \<lparr>vf_name := snprintf_ls (sizeof_name cfg) (take n (FileName info)),
                 vf_opaque := open_file r,
                 vf_len := FileSize info,
                 vf_read := Some Efi_read_file\<rparr>
          in special_case_files cfg info (idx st)
               (st\<lparr>vdisk_files := (vdisk_files st)[idx st := vfile],
                  idx := idx st + 1\<rparr>)))"

text \<open>
  The loop over the root directory. The list holds the firmware's turns, one for each
  call of \<^verbatim>\<open>root->Read\<close>; after the last of them the firmware reports the end of the
  directory, a read of size 0.
\<close>

fun read_root_directory :: "config \<Rightarrow> root_read list \<Rightarrow> extract_state \<Rightarrow> result" where
  "read_root_directory cfg [] st = Inr st"
| "read_root_directory cfg (r # rs) st =
     (if read_efirc r \<noteq> 0 then Inl (Die_read_root_directory (read_efirc r), st)
      else if read_size r = 0 then Inr st
      else case add_file cfg r st of
             Inl x \<Rightarrow> Inl x
           | Inr st' \<Rightarrow> read_root_directory cfg rs st')"

record firmware =
  OpenProtocol_efirc :: efi_status
  OpenVolume_efirc :: efi_status
  root_reads :: "root_read list"

definition efi_extract :: "config \<Rightarrow> firmware \<Rightarrow> extract_state \<Rightarrow> result" where
  "efi_extract cfg fw globals =
     (let st = globals\<lparr>idx := 0\<rparr> in
      if OpenProtocol_efirc fw \<noteq> 0
        then Inl (Die_open_simple_file_system (OpenProtocol_efirc fw), st)
      else if OpenVolume_efirc fw \<noteq> 0
        then Inl (Die_open_root_directory (OpenVolume_efirc fw), st)
      else
        case read_root_directory cfg (root_reads fw) st of
          Inl x \<Rightarrow> Inl x
        | Inr st' \<Rightarrow>
            (case bootmgfw st' of
               [] \<Rightarrow> Inl (Out_of_bounds, st')
             | c # _ \<Rightarrow>
                 if c = 0 then Inl (Die_no_boot_file (wstr (efi_bootarch cfg)), st')
                 else Inr st'))"

text \<open>The globals at startup: every byte of them is zero.\<close>

definition zero_file :: vdisk_file where
  "zero_file = \<lparr>vf_name = [], vf_opaque = 0, vf_len = 0, vf_read = None, vf_patch = None\<rparr>"

definition startup :: "config \<Rightarrow> extract_state" where
  "startup cfg =
     \<lparr>vdisk_files = replicate (VDISK_MAX_FILES cfg) zero_file,
      bootmgfw = replicate (sizeof_name cfg) 0,
      idx = 0\<rparr>"

text \<open>The state in which a run ended, and the error it ended with.\<close>

definition final_state :: "result \<Rightarrow> extract_state" where
  "final_state r = (case r of Inl (e, st) \<Rightarrow> st | Inr st \<Rightarrow> st)"

definition failure :: "result \<Rightarrow> error option" where
  "failure r = (case r of Inl (e, st) \<Rightarrow> Some e | Inr st \<Rightarrow> None)"

text \<open>The virtual file table: the entries of \<^verbatim>\<open>vdisk_files\<close> in use.\<close>

definition file_table :: "extract_state \<Rightarrow> vdisk_file list" where
  "file_table st = take (idx st) (vdisk_files st)"

subsection \<open>Notions used in the properties of the patcher\<close>

text \<open>The test of the loop of \<^verbatim>\<open>efi_patch_bcd\<close> succeeds at byte offset \<open>i\<close>.\<close>

definition token_at :: "byte list \<Rightarrow> nat \<Rightarrow> bool" where
  "token_at data i \<longleftrightarrow>
     wcscasecmp (\<lambda>k. load_wchar data (i + sizeof_wchar_t * k)) search = Inr 0"

text \<open>
  The loop invariant: \<open>d\<close> is \<open>data\<close> with the replacement written over every window
  below \<open>i\<close> at which the test succeeds on \<open>data\<close>, and nothing else changed.
\<close>

definition patched :: "byte list \<Rightarrow> nat \<Rightarrow> byte list \<Rightarrow> bool" where
  "patched data i d \<longleftrightarrow>
     length d = length data \<and>
     (\<forall>j<i. token_at data j \<longrightarrow> (\<forall>t<10. d ! (j + t) = bytes_of_wstr (replace @ [0]) ! t)) \<and>
     (\<forall>k<length data. (\<forall>j<i. token_at data j \<longrightarrow> k < j \<or> j + 10 \<le> k) \<longrightarrow> d ! k = data ! k)"

subsection \<open>Notions used in the properties of the directory scan\<close>

text \<open>
  The memory of a list of code units, as \<^verbatim>\<open>wcscasecmp\<close> reads it; the rule that makes
  a name the boot file (it equals, up to case, the architecture's boot file name or
  \<^verbatim>\<open>bootmgfw.efi\<close>); the last test of the special cases as the code computes it; the
  fields that a pass of the loop writes into its entry of \<^verbatim>\<open>vdisk_files\<close>.
  \<open>entry_ok\<close> is what the firmware owes for one turn of the loop: both calls succeed,
  the read is not the end of the directory, the name in \<^verbatim>\<open>info\<close> is NUL-terminated,
  and \<^verbatim>\<open>info\<close> has at least four code units before \<^verbatim>\<open>FileName\<close> and at least
  \<^verbatim>\<open>sizeof ( vfile->name )\<close> from it on (the array \<^verbatim>\<open>info.name\<close>).
  \<open>next_state\<close> is the state after one pass in which nothing fails, and \<open>passes\<close>
  the state after several.
\<close>

definition units_of :: "wchar list \<Rightarrow> nat \<Rightarrow> wchar option" where
  "units_of mem k = (if k < length mem then Some (mem ! k) else None)"

definition is_boot_name :: "config \<Rightarrow> wchar list \<Rightarrow> bool" where
  "is_boot_name cfg name \<longleftrightarrow>
     map towupper name = map towupper (wstr (efi_bootarch cfg)) \<or>
     map towupper name = map towupper (L ''bootmgfw.efi'')"

definition wim_test :: "efi_file_info \<Rightarrow> bool" where
  "wim_test info \<longleftrightarrow>
     wcscasecmp
       (\<lambda>k. info_unit info (wim_suffix_start (length (wstr (FileName info))) + int k))
       (L ''.wim'') = Inr 0"

definition entry_ok :: "config \<Rightarrow> root_read \<Rightarrow> bool" where
  "entry_ok cfg r \<longleftrightarrow>
     read_efirc r = 0 \<and> read_size r \<noteq> 0 \<and> open_efirc r = 0 \<and>
     0 \<in> set (FileName (read_info r)) \<and>
     sizeof_name cfg \<le> length (FileName (read_info r)) \<and>
     length (FileName (read_info r)) < 2 ^ 63 \<and>
     4 \<le> length (info_header (read_info r))"

definition next_state :: "config \<Rightarrow> root_read \<Rightarrow> extract_state \<Rightarrow> extract_state" where
  "next_state cfg r st =
     (let info = read_info r;
          name = wstr (FileName info);
          vfile = (vdisk_files st ! idx st)
            \<lparr>vf_name := snprintf_ls (sizeof_name cfg) name,
             vf_opaque := open_file r,
             vf_len := FileSize info,
             vf_read := Some Efi_read_file\<rparr>
      in st\<lparr>vdisk_files := (vdisk_files st)
               [idx st :=
                  if is_boot_name cfg name then vfile
                  else if map towupper name = map towupper (L ''BCD'')
                    then vfile\<lparr>vf_patch := Some Efi_patch_bcd\<rparr>
                  else if wim_test info then vfile\<lparr>vf_patch := Some Patch_wim\<rparr>
                  else vfile],
            idx := idx st + 1,
            bootmgfw :=
              if is_boot_name cfg name
              then take (sizeof_name cfg - 1) (FileName info) @ [last (bootmgfw st)]
              else bootmgfw st\<rparr>)"

definition entry_fields ::
  "vdisk_file \<Rightarrow> byte list \<times> nat \<times> size_t \<times> read_fn option" where
  "entry_fields v = (vf_name v, vf_opaque v, vf_len v, vf_read v)"

definition expected_fields ::
  "config \<Rightarrow> root_read \<Rightarrow> byte list \<times> nat \<times> size_t \<times> read_fn option" where
  "expected_fields cfg r =
     (snprintf_ls (sizeof_name cfg) (wstr (FileName (read_info r))), open_file r,
      FileSize (read_info r), Some Efi_read_file)"

definition passes :: "config \<Rightarrow> root_read list \<Rightarrow> extract_state \<Rightarrow> extract_state" where
  "passes cfg rs st = foldl (\<lambda>s r. next_state cfg r s) st rs"

definition ci_equal :: "wchar list \<Rightarrow> wchar list \<Rightarrow> bool" where
  "ci_equal a b \<longleftrightarrow> map towupper a = map towupper b"

text \<open>What the firmware owes for a whole scan: both opens succeed and every turn is in order.\<close>

definition firmware_ok :: "config \<Rightarrow> firmware \<Rightarrow> bool" where
  "firmware_ok cfg fw \<longleftrightarrow>
     OpenProtocol_efirc fw = 0 \<and> OpenVolume_efirc fw = 0 \<and>
     (\<forall>r\<in>set (root_reads fw). entry_ok cfg r)"

text \<open>
  What the firmware owes for the attribute word of a record. \<^verbatim>\<open>Attribute\<close> is the
  \<^verbatim>\<open>UINT64\<close> that a UEFI file record keeps in the eight bytes before \<^verbatim>\<open>FileName\<close>,
  the last four code units of \<open>info_header\<close>. UEFI defines its bits 0 to 5 only, so a
  file system driver leaves bits 16 to 63 zero: the last three code units before the
  name.
\<close>

definition attribute_ok :: "efi_file_info \<Rightarrow> bool" where
  "attribute_ok info \<longleftrightarrow>
     drop (length (info_header info) - 3) (info_header info) = [0, 0, 0]"

subsection \<open>The classification of a file name in the words of the specification\<close>

text \<open>
  The specification maps a file name to at most one tag by four rules, of which the
  first that matches wins: (1) the name equals, up to case, the final path component
  of the compiled-in removable-media boot path, the part after its last backslash;
  (2) it equals \<^verbatim>\<open>bootmgfw.efi\<close>; (3) it equals \<^verbatim>\<open>BCD\<close>; (4) it has the suffix
  \<^verbatim>\<open>.wim\<close>, which a name shorter than four characters never has. Rule 3 attaches the
  BCD patcher to the descriptor, rule 4 the WIM patcher, and no other name gets a patch
  function; rules 1 and 2 make the file the boot file. These definitions follow the
  specification, not the code; the properties compare the code with them.
\<close>

datatype tag = Boot_architecture | Boot_manager | Bcd_file | Wim_file

definition final_component :: "wchar list \<Rightarrow> wchar list" where
  "final_component path = rev (takeWhile (\<lambda>c. c \<noteq> 0x5C) (rev path))"

definition classify :: "config \<Rightarrow> wchar list \<Rightarrow> tag option" where
  "classify cfg name =
     (if ci_equal name (final_component (EFI_REMOVABLE_MEDIA_FILE_NAME cfg))
        then Some Boot_architecture
      else if ci_equal name (L ''bootmgfw.efi'') then Some Boot_manager
      else if ci_equal name (L ''BCD'') then Some Bcd_file
      else if 4 \<le> length name \<and> ci_equal (drop (length name - 4) name) (L ''.wim'')
        then Some Wim_file
      else None)"

fun patch_of :: "tag option \<Rightarrow> patch_fn option" where
  "patch_of (Some Bcd_file) = Some Efi_patch_bcd"
| "patch_of (Some Wim_file) = Some Patch_wim"
| "patch_of _ = None"

definition boot_tag :: "tag option \<Rightarrow> bool" where
  "boot_tag t \<longleftrightarrow> t = Some Boot_architecture \<or> t = Some Boot_manager"

subsection \<open>Example inputs\<close>

text \<open>
  A configuration with the x64 removable-media path; directory entries as a firmware
  fills them, with the name NUL-padded to 32 code units and the given code units before
  it (\<open>archive\<close> is the attribute \<^verbatim>\<open>EFI_FILE_ARCHIVE\<close>, which a UEFI file record
  keeps in the eight bytes before the name); a directory of three files; a firmware
  whose opens succeed; and a file object that answers the seek and the read with given
  statuses and serves the bytes of \<open>content\<close>, as many as there are.
\<close>

definition example_config :: config where
  "example_config =
     \<lparr>EFI_REMOVABLE_MEDIA_FILE_NAME =
        0x5C # L ''EFI'' @ 0x5C # L ''BOOT'' @ 0x5C # L ''BOOTX64.EFI'',
      VDISK_MAX_FILES = 3,
      sizeof_name = 32\<rparr>"

definition dir_entry :: "string \<Rightarrow> wchar list \<Rightarrow> size_t \<Rightarrow> nat \<Rightarrow> root_read" where
  "dir_entry name header fsize file =
     \<lparr>read_efirc = 0,
      read_size = word_of_nat (80 + 2 * (length name + 1)),
      read_info =
        \<lparr>FileSize = fsize, info_header = header,
         FileName = L name @ replicate (32 - length name) 0\<rparr>,
      open_efirc = 0,
      open_file = file\<rparr>"

definition archive :: "wchar list" where
  "archive = [0x20, 0, 0, 0]"

definition example_directory :: "root_read list" where
  "example_directory =
     [dir_entry ''bootx64.efi'' archive 1024 1,
      dir_entry ''bootmgfw.efi'' archive 2048 2,
      dir_entry ''BCD'' archive 4096 3]"

definition example_firmware :: "root_read list \<Rightarrow> firmware" where
  "example_firmware rs = \<lparr>OpenProtocol_efirc = 0, OpenVolume_efirc = 0, root_reads = rs\<rparr>"

definition firmware_file :: "efi_status \<Rightarrow> efi_status \<Rightarrow> byte list \<Rightarrow> efi_file_protocol" where
  "firmware_file seek_rc read_rc content =
     \<lparr>SetPosition = (\<lambda>offset. seek_rc),
      Read = (\<lambda>position n.
        (read_rc, if read_rc = 0 then take (unat n) (drop (unat position) content) else []))\<rparr>"

text \<open>
  Two records for the name tests: one of the name \<^verbatim>\<open>a\<close> of which only the name
  buffer is in the store, and one whose name is longer than \<^verbatim>\<open>bootmgfw\<close>.
\<close>

definition name_only_info :: efi_file_info where
  "name_only_info = \<lparr>FileSize = 5, info_header = [], FileName = L ''a'' @ [0]\<rparr>"

definition long_name_info :: efi_file_info where
  "long_name_info =
     \<lparr>FileSize = 0, info_header = archive, FileName = replicate 35 0x41 @ [0]\<rparr>"

text \<open>
  A turn of the firmware that delivers the first of these records, and a directory of a
  one-character name and a WIM image.
\<close>

definition name_only_entry :: root_read where
  "name_only_entry =
     \<lparr>read_efirc = 0, read_size = 84, read_info = name_only_info,
      open_efirc = 0, open_file = 7\<rparr>"

definition short_name_directory :: "root_read list" where
  "short_name_directory =
     [dir_entry ''a'' archive 5 7, dir_entry ''boot.wim'' archive 8192 4]"

section \<open>Properties\<close>

declare patch_loop.simps [simp del]

lemma sizeof_search: "sizeof_wstr search = 10"
  by (simp add: sizeof_wstr_def search_def L_def sizeof_wchar_t_def)

subsection \<open>The token test and the loop of the patcher\<close>

lemma search_units: "search = [0x2E, 0x65, 0x78, 0x65]"
  by (simp add: search_def L_def)

lemma replace_bytes: "bytes_of_wstr (replace @ [0]) = [0x2E, 0, 0x65, 0, 0x66, 0, 0x69, 0, 0, 0]"
  by (simp add: replace_def L_def)

lemma efi_patch_bcd_loop: "efi_patch_bcd False data offset len = patch_loop (unat (len - 10)) 0 data"
  by (simp add: efi_patch_bcd_def sizeof_search)

lemma towupper_eq_0 [simp]: "towupper c = 0 \<longleftrightarrow> c = 0"
  unfolding towupper_def by (auto; unat_arith)

lemma towupper_0 [simp]: "towupper 0 = 0"
  by (simp add: towupper_def)

lemma towupper_eq_0' [simp]: "0 = towupper c \<longleftrightarrow> c = 0"
  using towupper_eq_0 [of c] by (metis towupper_eq_0)

lemma Suc_offsets:
  "Suc (Suc (Suc i)) = i + 3"
  "Suc (Suc (Suc (Suc i))) = i + 4"
  "Suc (Suc (Suc (Suc (Suc i)))) = i + 5"
  "Suc (Suc (Suc (Suc (Suc (Suc (Suc i)))))) = i + 7"
  "Suc (Suc (Suc (Suc (Suc (Suc (Suc (Suc (Suc i)))))))) = i + 9"
  "Suc (Suc (Suc (Suc (Suc (Suc i))))) = i + 6"
  "Suc (Suc (Suc (Suc (Suc (Suc (Suc (Suc i))))))) = i + 8"
  by simp_all

lemma towupper_dot: "towupper c = 0x2E \<longleftrightarrow> c = 0x2E"
  unfolding towupper_def by (auto; unat_arith)

lemma towupper_E: "towupper c = 0x45 \<longleftrightarrow> c = 0x45 \<or> c = 0x65"
  unfolding towupper_def by (auto; unat_arith)

lemma towupper_X: "towupper c = 0x58 \<longleftrightarrow> c = 0x58 \<or> c = 0x78"
  unfolding towupper_def by (auto; unat_arith)

lemma towupper_consts: "towupper 0x2E = 0x2E" "towupper 0x65 = 0x45" "towupper 0x78 = 0x58"
  by (simp_all add: towupper_def)

lemma uint_diff_0: "uint (a::wchar) - uint b = 0 \<longleftrightarrow> a = b"
  by (simp add: word_uint_eq_iff)

lemma uint_eq_wchar [simp]: "uint (a::wchar) = uint b \<longleftrightarrow> a = b"
  by (simp add: word_uint_eq_iff)

lemma wcscasecmp_Nil_zero: "wcscasecmp str1 [] = Inr 0 \<longleftrightarrow> str1 0 = Some 0"
  by (simp add: uint_diff_0 [where b = 0, simplified] split: option.splits)

lemma wcscasecmp_Cons_zero:
  "s \<noteq> 0 \<Longrightarrow> wcscasecmp str1 (s # ss) = Inr 0 \<longleftrightarrow>
     (\<exists>c. str1 0 = Some c \<and> towupper c = towupper s \<and>
          wcscasecmp (\<lambda>k. str1 (Suc k)) ss = Inr 0)"
  by (cases "str1 0") (auto simp: uint_diff_0)

lemma match_iff:
  "wcscasecmp (\<lambda>k. load_wchar data (i + sizeof_wchar_t * k)) search = Inr 0 \<longleftrightarrow>
     (\<exists>u1 u2 u3. load_wchar data i = Some 0x2E \<and>
        load_wchar data (i + 2) = Some u1 \<and> towupper u1 = 0x45 \<and>
        load_wchar data (i + 4) = Some u2 \<and> towupper u2 = 0x58 \<and>
        load_wchar data (i + 6) = Some u3 \<and> towupper u3 = 0x45 \<and>
        load_wchar data (i + 8) = Some 0)"
  by (simp add: search_units sizeof_wchar_t_def wcscasecmp_Cons_zero wcscasecmp_Nil_zero
      towupper_consts towupper_dot Suc_offsets add.commute [of _ i] del: wcscasecmp.simps)

lemma unat_wchar_of_bytes: "unat (wchar_of_bytes lo hi) = unat lo + 256 * unat hi"
proof -
  have "unat lo < 256" "unat hi < 256"
    using unsigned_less [of lo, where 'a = nat] unsigned_less [of hi, where 'a = nat] by simp_all
  then have "unat lo + 256 * unat hi < 2 ^ 16" by simp
  then show ?thesis
    unfolding wchar_of_bytes_def by (simp add: unat_of_nat del: of_nat_add of_nat_mult)
qed

lemma wchar_of_bytes_eq_byte:
  assumes "n < 256"
  shows "wchar_of_bytes lo hi = word_of_nat n \<longleftrightarrow> lo = word_of_nat n \<and> hi = 0"
proof -
  have b: "unat lo < 256" "unat hi < 256"
    using unsigned_less [of lo, where 'a = nat] unsigned_less [of hi, where 'a = nat] by simp_all
  have "wchar_of_bytes lo hi = word_of_nat n \<longleftrightarrow> unat lo + 256 * unat hi = n"
    using assms by (simp add: word_unat_eq_iff unat_wchar_of_bytes unat_of_nat)
  also have "\<dots> \<longleftrightarrow> unat lo = n \<and> unat hi = 0"
    using b assms by auto
  also have "\<dots> \<longleftrightarrow> lo = word_of_nat n \<and> hi = 0"
    using assms by (simp add: word_unat_eq_iff unat_of_nat)
  finally show ?thesis .
qed

lemma wchar_of_bytes_consts:
  "wchar_of_bytes lo hi = 0 \<longleftrightarrow> lo = 0 \<and> hi = 0"
  "wchar_of_bytes lo hi = 0x2E \<longleftrightarrow> lo = 0x2E \<and> hi = 0"
  "wchar_of_bytes lo hi = 0x45 \<longleftrightarrow> lo = 0x45 \<and> hi = 0"
  "wchar_of_bytes lo hi = 0x65 \<longleftrightarrow> lo = 0x65 \<and> hi = 0"
  "wchar_of_bytes lo hi = 0x58 \<longleftrightarrow> lo = 0x58 \<and> hi = 0"
  "wchar_of_bytes lo hi = 0x78 \<longleftrightarrow> lo = 0x78 \<and> hi = 0"
  using wchar_of_bytes_eq_byte [of 0 lo hi] wchar_of_bytes_eq_byte [of "0x2E" lo hi]
    wchar_of_bytes_eq_byte [of "0x45" lo hi] wchar_of_bytes_eq_byte [of "0x65" lo hi]
    wchar_of_bytes_eq_byte [of "0x58" lo hi] wchar_of_bytes_eq_byte [of "0x78" lo hi]
  by simp_all

lemma token_bytes:
  "wcscasecmp (\<lambda>k. load_wchar data (i + sizeof_wchar_t * k)) search = Inr 0 \<longleftrightarrow>
     i + 10 \<le> length data \<and>
     data ! i = 0x2E \<and> data ! (i + 1) = 0 \<and>
     (data ! (i + 2) = 0x45 \<or> data ! (i + 2) = 0x65) \<and> data ! (i + 3) = 0 \<and>
     (data ! (i + 4) = 0x58 \<or> data ! (i + 4) = 0x78) \<and> data ! (i + 5) = 0 \<and>
     (data ! (i + 6) = 0x45 \<or> data ! (i + 6) = 0x65) \<and> data ! (i + 7) = 0 \<and>
     data ! (i + 8) = 0 \<and> data ! (i + 9) = 0"
  unfolding match_iff
  by (auto simp: load_wchar_def towupper_E towupper_X wchar_of_bytes_consts Suc_offsets
      add.commute [of _ i] split: if_splits)

lemmas token_at_bytes = token_bytes [folded token_at_def]

lemma token_at_window:
  assumes "length d = length data" and "\<forall>t<10. d ! (i + t) = data ! (i + t)"
  shows "token_at d i = token_at data i"
proof -
  have w: "\<And>t. t < 10 \<Longrightarrow> d ! (i + t) = data ! (i + t)"
    using assms(2) by blast
  have "d ! (i + 0) = data ! (i + 0)" "d ! (i + 1) = data ! (i + 1)" "d ! (i + 2) = data ! (i + 2)"
    "d ! (i + 3) = data ! (i + 3)" "d ! (i + 4) = data ! (i + 4)" "d ! (i + 5) = data ! (i + 5)"
    "d ! (i + 6) = data ! (i + 6)" "d ! (i + 7) = data ! (i + 7)" "d ! (i + 8) = data ! (i + 8)"
    "d ! (i + 9) = data ! (i + 9)"
    using w [of 0] w [of 1] w [of 2] w [of 3] w [of 4] w [of 5] w [of 6] w [of 7] w [of 8]
      w [of 9] by simp_all
  then show ?thesis
    using assms(1) by (simp add: token_at_bytes)
qed

lemma token_at_first_byte: "token_at x i \<Longrightarrow> x ! i = 0x2E"
  by (simp add: token_at_bytes)

lemma small_offset_cases:
  assumes "(j::nat) < i" "i < j + 10"
  obtains "i = j + 1" | "i = j + 2" | "i = j + 3" | "i = j + 4" | "i = j + 5"
    | "i = j + 6" | "i = j + 7" | "i = j + 8" | "i = j + 9"
  using assms by arith

lemma token_at_no_overlap:
  assumes "token_at x j" "j < i" "i < j + 10"
  shows "x ! i \<noteq> 0x2E"
  using assms(2,3)
proof (cases rule: small_offset_cases)
qed (use assms(1) in \<open>auto simp: token_at_bytes\<close>)

lemma replaced_no_overlap:
  assumes "\<forall>t<10. x ! (j + t) = bytes_of_wstr (replace @ [0]) ! t" "j < i" "i < j + 10"
  shows "x ! i \<noteq> 0x2E"
proof -
  obtain t where t: "i = j + t" "t < 10" "0 < t"
    using assms(2,3) by (metis less_imp_add_positive nat_add_left_cancel_less)
  then have "x ! i = bytes_of_wstr (replace @ [0]) ! t"
    using assms(1) by simp
  moreover have "t \<in> {1,2,3,4,5,6,7,8,9}"
    using t by auto
  ultimately show ?thesis
    by (auto simp: replace_bytes)
qed

lemma patched_token_at:
  assumes "patched data i d" "i + 10 \<le> length data"
  shows "token_at d i = token_at data i"
proof (cases "\<exists>j<i. token_at data j \<and> i < j + 10")
  case True
  then obtain j where j: "j < i" "token_at data j" "i < j + 10" by blast
  have "data ! i \<noteq> 0x2E"
    using token_at_no_overlap [OF j(2) j(1) j(3)] .
  moreover have "\<forall>t<10. d ! (j + t) = bytes_of_wstr (replace @ [0]) ! t"
    using assms(1) j by (simp add: patched_def)
  then have "d ! i \<noteq> 0x2E"
    using replaced_no_overlap j by blast
  ultimately show ?thesis
    using token_at_first_byte by blast
next
  case False
  have "\<forall>t<10. d ! (i + t) = data ! (i + t)"
  proof (intro allI impI)
    fix t :: nat assume t: "t < 10"
    have "\<forall>j<i. token_at data j \<longrightarrow> i + t < j \<or> j + 10 \<le> i + t"
      using False by (metis not_less trans_le_add1)
    moreover have "i + t < length data" using t assms(2) by simp
    ultimately show "d ! (i + t) = data ! (i + t)"
      using assms(1) by (simp add: patched_def)
  qed
  moreover have "length d = length data"
    using assms(1) by (simp add: patched_def)
  ultimately show ?thesis
    by (rule token_at_window [rotated])
qed

lemma length_replace_bytes: "length (bytes_of_wstr (replace @ [0])) = 10"
  by (simp add: replace_bytes)

lemma patched_skip:
  assumes "patched data i d" "\<not> token_at data i"
  shows "patched data (Suc i) d"
  using assms unfolding patched_def by (auto simp: less_Suc_eq)

lemma nth_overwrite:
  assumes "i + length src \<le> length d" "k < length d"
  shows "(take i d @ src @ drop (i + length src) d) ! k =
         (if i \<le> k \<and> k < i + length src then src ! (k - i) else d ! k)"
  using assms by (auto simp: nth_append min_def)

lemma patched_write:
  assumes p: "patched data i d" and tok: "token_at data i" and len: "i + 10 \<le> length data"
  shows "patched data (Suc i)
           (take i d @ bytes_of_wstr (replace @ [0]) @ drop (i + 10) d)"
    (is "patched data (Suc i) ?d'")
proof -
  let ?R = "bytes_of_wstr (replace @ [0])"
  have ld: "length d = length data" using p by (simp add: patched_def)
  have nth: "\<And>k. k < length d \<Longrightarrow> ?d' ! k = (if i \<le> k \<and> k < i + 10 then ?R ! (k - i) else d ! k)"
    using nth_overwrite [of i ?R d] len ld by (simp add: length_replace_bytes)
  have apart: "\<And>j. j < i \<Longrightarrow> token_at data j \<Longrightarrow> j + 10 \<le> i"
    using token_at_no_overlap token_at_first_byte [OF tok] by (meson not_less)
  have "length ?d' = length data"
    using len ld by (simp add: length_replace_bytes)
  moreover have "\<forall>j<Suc i. token_at data j \<longrightarrow> (\<forall>t<10. ?d' ! (j + t) = ?R ! t)"
  proof (intro allI impI)
    fix j t :: nat assume j: "j < Suc i" "token_at data j" and t: "t < 10"
    show "?d' ! (j + t) = ?R ! t"
    proof (cases "j = i")
      case True
      then show ?thesis using nth [of "i + t"] t len ld by simp
    next
      case False
      then have "j < i" using j by simp
      then have "j + 10 \<le> i" using apart j by blast
      moreover have "d ! (j + t) = ?R ! t"
        using p \<open>j < i\<close> j(2) t by (simp add: patched_def)
      ultimately show ?thesis using nth [of "j + t"] t len ld by simp
    qed
  qed
  moreover have "\<forall>k<length data.
      (\<forall>j<Suc i. token_at data j \<longrightarrow> k < j \<or> j + 10 \<le> k) \<longrightarrow> ?d' ! k = data ! k"
  proof (intro allI impI)
    fix k assume k: "k < length data"
      and out: "\<forall>j<Suc i. token_at data j \<longrightarrow> k < j \<or> j + 10 \<le> k"
    have "k < i \<or> i + 10 \<le> k" using out tok by simp
    then have "?d' ! k = d ! k" using nth [of k] k ld by auto
    moreover have "\<forall>j<i. token_at data j \<longrightarrow> k < j \<or> j + 10 \<le> k"
      using out by simp
    then have "d ! k = data ! k" using p k by (simp add: patched_def)
    ultimately show "?d' ! k = data ! k" by simp
  qed
  ultimately show ?thesis
    unfolding patched_def by blast
qed

lemma wcscasecmp_in_bounds:
  assumes "\<forall>k\<le>length s. str1 k \<noteq> None"
  shows "\<exists>r. wcscasecmp str1 s = Inr r"
  using assms
proof (induction s arbitrary: str1)
  case Nil
  then have "str1 0 \<noteq> None" by blast
  then show ?case by (cases "str1 0") simp_all
next
  case (Cons c s)
  have "\<forall>k\<le>length s. str1 (Suc k) \<noteq> None"
    using Cons.prems by simp
  then have "\<exists>r. wcscasecmp (\<lambda>k. str1 (Suc k)) s = Inr r"
    by (rule Cons.IH)
  moreover have "str1 0 \<noteq> None" using Cons.prems by blast
  ultimately show ?case by (cases "str1 0") auto
qed

lemma wcscasecmp_Inl: "wcscasecmp str1 s = Inl e \<Longrightarrow> e = Out_of_bounds"
  by (induction s arbitrary: str1) (auto split: option.splits if_splits)

lemma search_in_bounds:
  assumes "i + 10 \<le> length d"
  shows "\<exists>r. wcscasecmp (\<lambda>k. load_wchar d (i + sizeof_wchar_t * k)) search = Inr r"
proof (rule wcscasecmp_in_bounds)
  show "\<forall>k\<le>length search. load_wchar d (i + sizeof_wchar_t * k) \<noteq> None"
    using assms by (simp add: search_units load_wchar_def sizeof_wchar_t_def)
qed

lemma patch_loop_patched:
  assumes "patched data i d" "i \<le> bound" "bound + 10 \<le> length data"
  shows "\<exists>out. patch_loop bound i d = Inr out \<and> patched data bound out"
  using assms
proof (induction "bound - i" arbitrary: i d)
  case 0
  then have "i = bound" by simp
  then show ?case using "0.prems" by (simp add: patch_loop.simps)
next
  case (Suc n)
  then have i: "i < bound" "i + 10 \<le> length data" by simp_all
  have ld: "length d = length data" using Suc.prems(1) by (simp add: patched_def)
  have same: "token_at d i = token_at data i"
    using patched_token_at [OF Suc.prems(1) i(2)] .
  have n: "n = bound - Suc i" using Suc.hyps(2) by simp
  show ?case
  proof (cases "token_at data i")
    case True
    let ?d' = "take i d @ bytes_of_wstr (replace @ [0]) @ drop (i + 10) d"
    have step: "patch_loop bound i d = patch_loop bound (Suc i) ?d'"
      using True same i ld
      by (subst patch_loop.simps) (simp add: token_at_def memcpy_def length_replace_bytes)
    have "patched data (Suc i) ?d'"
      using patched_write [OF Suc.prems(1) True i(2)] .
    then show ?thesis
      using Suc.hyps(1) [OF n] i Suc.prems(3) step by simp
  next
    case False
    obtain r where r: "wcscasecmp (\<lambda>k. load_wchar d (i + sizeof_wchar_t * k)) search = Inr r"
      using search_in_bounds [of i d] i ld by auto
    have "r \<noteq> 0" using False same r by (auto simp: token_at_def)
    then have step: "patch_loop bound i d = patch_loop bound (Suc i) d"
      using r i by (subst patch_loop.simps) simp
    have "patched data (Suc i) d"
      using patched_skip [OF Suc.prems(1) False] .
    then show ?thesis
      using Suc.hyps(1) [OF n] i Suc.prems(3) step by simp
  qed
qed

lemma patched_start: "patched data 0 data"
  by (simp add: patched_def)

lemma patch_bound:
  assumes "10 \<le> length data" "length data < 2 ^ 64"
  shows "unat (word_of_nat (length data) - 10 :: size_t) = length data - 10"
proof -
  have "unat (word_of_nat (length data) :: size_t) = length data"
    using assms(2) by (simp add: unat_of_nat)
  moreover have "(10 :: size_t) \<le> word_of_nat (length data)"
    using assms by (simp add: word_le_nat_alt unat_of_nat)
  ultimately show ?thesis
    by (simp add: unat_sub)
qed

lemma patch_bcd_long:
  assumes "10 \<le> length data" "length data < 2 ^ 64"
  shows "\<exists>out. efi_patch_bcd False data offset (word_of_nat (length data)) = Inr out \<and>
           patched data (length data - 10) out"
  using patch_loop_patched [OF patched_start, of "length data - 10" data] assms
  by (simp add: efi_patch_bcd_loop patch_bound)

lemma short_buffer_faults:
  assumes "length d < 10" "i \<le> length d" "length d < bound"
  shows "patch_loop bound i d = Inl Out_of_bounds"
  using assms
proof (induction "length d - i" arbitrary: i)
  case 0
  then have "load_wchar d i = None" by (simp add: load_wchar_def)
  then have "wcscasecmp (\<lambda>k. load_wchar d (i + sizeof_wchar_t * k)) search = Inl Out_of_bounds"
    by (simp add: search_units)
  then show ?case using 0 by (subst patch_loop.simps) simp
next
  case (Suc n)
  have nt: "\<not> token_at d i" using Suc.prems by (simp add: token_at_bytes)
  have ih: "patch_loop bound (Suc i) d = Inl Out_of_bounds"
    using Suc by simp
  show ?case
  proof (cases "wcscasecmp (\<lambda>k. load_wchar d (i + sizeof_wchar_t * k)) search")
    case (Inl e)
    have "e = Out_of_bounds" using Inl by (rule wcscasecmp_Inl)
    then show ?thesis using Inl Suc.prems by (subst patch_loop.simps) simp
  next
    case (Inr r)
    then have "r \<noteq> 0" using nt by (auto simp: token_at_def)
    then show ?thesis using Inr ih Suc.prems by (subst patch_loop.simps) simp
  qed
qed


lemmas patch_eval = load_wchar_def search_units wchar_of_bytes_def towupper_def sizeof_wchar_t_def memcpy_def replace_bytes

lemma token_at_iff:
  "token_at data i \<longleftrightarrow>
     (\<exists>u0 u1 u2 u3.
        load_wchar data i = Some u0 \<and> load_wchar data (i + 2) = Some u1 \<and>
        load_wchar data (i + 4) = Some u2 \<and> load_wchar data (i + 6) = Some u3 \<and>
        load_wchar data (i + 8) = Some 0 \<and>
        map towupper [u0, u1, u2, u3] = map towupper (L ''.exe''))"
  unfolding token_at_def match_iff
  by (auto simp: L_def towupper_consts towupper_dot)

subsection \<open>C1: buffers shorter than the token\<close>

text \<open>
  C1 says that for a buffer shorter than the token the loop does not run and that no
  byte at an index from \<open>len\<close> on is ever read or written. The code computes
  \<^verbatim>\<open>len - sizeof ( search )\<close> in \<^verbatim>\<open>size_t\<close>: for a length below 10 the bound wraps
  round to a value above the length, the loop runs, and the comparison reads past the
  end of the buffer. For every buffer of fewer than 10 bytes, passed with its own
  length and raw-BCD mode off, \<^verbatim>\<open>efi_patch_bcd\<close> makes an out-of-bounds access.
\<close>

theorem patch_bcd_short_buffer:
  assumes "length data < 10"
  shows "efi_patch_bcd False data offset (word_of_nat (length data)) = Inl Out_of_bounds"
proof -
  have "unat (word_of_nat (length data) :: size_t) = length data"
    using assms by (simp add: unat_of_nat)
  moreover have "(word_of_nat (length data) :: size_t) < 10"
    using assms by (simp add: word_less_nat_alt unat_of_nat)
  ultimately have "length data < unat (word_of_nat (length data) - 10 :: size_t)"
    using assms by (simp add: unat_sub_if')
  then show ?thesis
    using short_buffer_faults [of data 0] assms by (simp add: efi_patch_bcd_loop)
qed

text \<open>The buffer of four bytes that holds \<^verbatim>\<open>L".e"\<close> without a terminator, with \<open>len = 4\<close>.\<close>

theorem patch_bcd_short_buffer_witness:
  "length [0x2E, 0, 0x65, 0 :: byte] < 10 \<and>
   efi_patch_bcd False [0x2E, 0, 0x65, 0] 0 4 = Inl Out_of_bounds"
  using patch_bcd_short_buffer [of "[0x2E, 0, 0x65, 0]" 0] by simp

subsection \<open>C3: what the patcher replaces\<close>

text \<open>
  C3, as amended. With raw-BCD mode off and a buffer of at least 10 bytes, passed with
  its own length, \<^verbatim>\<open>efi_patch_bcd\<close> succeeds and returns a buffer of the same length
  in which every window that starts at an offset \<open>i < len - 10\<close> and passes the test on
  the input holds \<^verbatim>\<open>L".efi"\<close> with its NUL; every byte outside those windows is
  unchanged; and the test passes at \<open>i\<close> exactly when the four code units at \<open>i\<close> are
  \<^verbatim>\<open>.exe\<close> up to case and the fifth is the NUL, so a longer string that begins with
  \<^verbatim>\<open>.exe\<close> does not pass. The window at \<open>i = len - 10\<close>, the last one that fits,
  is not examined.
\<close>

theorem patch_bcd_replaces_tokens:
  assumes "10 \<le> length data" "length data < 2 ^ 64"
  shows "\<exists>out. efi_patch_bcd False data offset (word_of_nat (length data)) = Inr out \<and>
           length out = length data \<and>
           (\<forall>i<length data - 10. token_at data i \<longrightarrow>
              take 10 (drop i out) = bytes_of_wstr (L ''.efi'' @ [0])) \<and>
           (\<forall>k<length data.
              (\<forall>i<length data - 10. token_at data i \<longrightarrow> k < i \<or> i + 10 \<le> k) \<longrightarrow>
              out ! k = data ! k) \<and>
           (\<forall>i. token_at data i \<longleftrightarrow>
              (\<exists>u0 u1 u2 u3.
                 load_wchar data i = Some u0 \<and> load_wchar data (i + 2) = Some u1 \<and>
                 load_wchar data (i + 4) = Some u2 \<and> load_wchar data (i + 6) = Some u3 \<and>
                 load_wchar data (i + 8) = Some 0 \<and>
                 map towupper [u0, u1, u2, u3] = map towupper (L ''.exe'')))"
proof -
  obtain out where out: "efi_patch_bcd False data offset (word_of_nat (length data)) = Inr out"
    and p: "patched data (length data - 10) out"
    using patch_bcd_long [OF assms] by blast
  have len: "length out = length data" using p by (simp add: patched_def)
  have win: "\<forall>i<length data - 10. token_at data i \<longrightarrow>
              take 10 (drop i out) = bytes_of_wstr (L ''.efi'' @ [0])"
  proof (intro allI impI)
    fix i assume i: "i < length data - 10" "token_at data i"
    have "\<forall>t<10. out ! (i + t) = bytes_of_wstr (replace @ [0]) ! t"
      using p i by (simp add: patched_def)
    then have "\<forall>t<10. take 10 (drop i out) ! t = bytes_of_wstr (replace @ [0]) ! t"
      using i len by simp
    moreover have "length (take 10 (drop i out)) = 10" using i len by simp
    ultimately have "take 10 (drop i out) = bytes_of_wstr (replace @ [0])"
      by (intro nth_equalityI) (simp_all add: length_replace_bytes)
    then show "take 10 (drop i out) = bytes_of_wstr (L ''.efi'' @ [0])"
      by (simp add: replace_def)
  qed
  have frame: "\<forall>k<length data.
      (\<forall>i<length data - 10. token_at data i \<longrightarrow> k < i \<or> i + 10 \<le> k) \<longrightarrow> out ! k = data ! k"
    using p unfolding patched_def by blast
  show ?thesis
    using out len win frame token_at_iff by blast
qed

text \<open>
  C3 as stated fails: a buffer that is exactly \<^verbatim>\<open>L".exe"\<close> with its NUL passes the test
  at offset 0 and comes back unchanged.
\<close>

theorem patch_bcd_last_window_counterexample:
  "token_at (bytes_of_wstr (L ''.exe'' @ [0])) 0 \<and>
   efi_patch_bcd False (bytes_of_wstr (L ''.exe'' @ [0])) 0 10 = Inr (bytes_of_wstr (L ''.exe'' @ [0]))"
  by (simp add: token_at_bytes L_def efi_patch_bcd_loop patch_loop.simps)

text \<open>The theorem at the 14 bytes of \<^verbatim>\<open>L"a.EXE"\<close> followed by two NULs.\<close>

theorem patch_bcd_replaces_tokens_witness:
  "10 \<le> length (bytes_of_wstr (L ''a.EXE'' @ [0, 0])) \<and>
   length (bytes_of_wstr (L ''a.EXE'' @ [0, 0])) < 2 ^ 64 \<and>
   token_at (bytes_of_wstr (L ''a.EXE'' @ [0, 0])) 2 \<and>
   efi_patch_bcd False (bytes_of_wstr (L ''a.EXE'' @ [0, 0])) 0 14 = Inr (bytes_of_wstr (L ''a.efi'' @ [0, 0]))"
proof -
  let ?D = "bytes_of_wstr (L ''a.EXE'' @ [0, 0])"
  have h1: "10 \<le> length ?D" and h2: "length ?D < 2 ^ 64"
    by (simp_all add: L_def)
  have tok: "token_at ?D 2"
    by (simp add: token_at_bytes L_def)
  obtain out where out: "efi_patch_bcd False ?D 0 (word_of_nat (length ?D)) = Inr out"
    and win: "\<forall>i<length ?D - 10. token_at ?D i \<longrightarrow>
                take 10 (drop i out) = bytes_of_wstr (L ''.efi'' @ [0])"
    using patch_bcd_replaces_tokens [OF h1 h2, of 0] by blast
  have "efi_patch_bcd False ?D 0 14 = Inr (bytes_of_wstr (L ''a.efi'' @ [0, 0]))"
    by (simp add: efi_patch_bcd_loop patch_loop.simps L_def patch_eval)
  then show ?thesis
    using h1 h2 tok out win by simp
qed

subsection \<open>C4: raw-BCD mode\<close>

text \<open>
  C4. When the raw-BCD flag is set, \<^verbatim>\<open>efi_patch_bcd\<close> returns with the buffer
  unchanged, whatever the buffer holds and whatever offset and length are passed.
\<close>

theorem rawbcd_leaves_buffer: "efi_patch_bcd True data offset len = Inr data"
  by (simp add: efi_patch_bcd_def)

subsection \<open>C8: the read adapter\<close>

text \<open>
  C8, as amended. In \<^verbatim>\<open>efi_read_file\<close> a non-zero status of \<^verbatim>\<open>SetPosition\<close> is fatal
  and the error names the seek and carries the status; when the seek succeeds, a
  non-zero status of \<^verbatim>\<open>Read\<close> is fatal and the error names the read and carries the
  status; when both succeed the function returns with the bytes that the firmware
  delivered at the front of the buffer and the rest of the buffer unchanged, however
  many bytes were delivered: the count that \<^verbatim>\<open>Read\<close> writes back is never looked at,
  so a short read is not detected.
\<close>

theorem efi_read_file_statuses:
  "(SetPosition file offset \<noteq> 0 \<longrightarrow>
      efi_read_file file data offset len =
      Inl (Die_set_file_position (SetPosition file offset))) \<and>
   (SetPosition file offset = 0 \<and> fst (Read file offset len) \<noteq> 0 \<longrightarrow>
      efi_read_file file data offset len =
      Inl (Die_read_from_file (fst (Read file offset len)))) \<and>
   (SetPosition file offset = 0 \<and> fst (Read file offset len) = 0 \<and>
    length (snd (Read file offset len)) \<le> unat len \<and> unat len \<le> length data \<longrightarrow>
      efi_read_file file data offset len =
      Inr (snd (Read file offset len) @ drop (length (snd (Read file offset len))) data))"
  by (auto simp: efi_read_file_def Let_def memcpy_def split: prod.splits)

text \<open>
  C8 as stated fails: a read of 4 bytes from a file of 2 bytes succeeds at the firmware
  with 2 bytes delivered, and \<^verbatim>\<open>efi_read_file\<close> returns normally with the last two
  bytes of the buffer untouched.
\<close>

theorem short_read_counterexample:
  "efi_read_file (firmware_file 0 0 [0xAA, 0xBB]) [1, 2, 3, 4] 0 4 = Inr [0xAA, 0xBB, 3, 4]"
  by (simp add: efi_read_file_def firmware_file_def memcpy_def)

text \<open>
  The theorem at a file whose seek fails with \<^verbatim>\<open>EFI_DEVICE_ERROR\<close>, at one whose read
  fails with it, and at a read of 4 bytes at offset 1 of a file of 5 bytes.
\<close>

theorem efi_read_file_statuses_witness:
  "SetPosition (firmware_file 0x8000000000000007 0 [0xAA, 0xBB]) 0 \<noteq> 0 \<and>
   efi_read_file (firmware_file 0x8000000000000007 0 [0xAA, 0xBB]) [1, 2, 3, 4] 0 4 =
     Inl (Die_set_file_position 0x8000000000000007) \<and>
   SetPosition (firmware_file 0 0x8000000000000007 [0xAA, 0xBB]) 0 = 0 \<and>
   fst (Read (firmware_file 0 0x8000000000000007 [0xAA, 0xBB]) 0 4) \<noteq> 0 \<and>
   efi_read_file (firmware_file 0 0x8000000000000007 [0xAA, 0xBB]) [1, 2, 3, 4] 0 4 =
     Inl (Die_read_from_file 0x8000000000000007) \<and>
   SetPosition (firmware_file 0 0 [0xAA, 0xBB, 0xCC, 0xDD, 0xEE]) 1 = 0 \<and>
   fst (Read (firmware_file 0 0 [0xAA, 0xBB, 0xCC, 0xDD, 0xEE]) 1 4) = 0 \<and>
   length (snd (Read (firmware_file 0 0 [0xAA, 0xBB, 0xCC, 0xDD, 0xEE]) 1 4)) \<le> unat (4 :: size_t) \<and>
   unat (4 :: size_t) \<le> length [1, 2, 3, 4 :: byte] \<and>
   efi_read_file (firmware_file 0 0 [0xAA, 0xBB, 0xCC, 0xDD, 0xEE]) [1, 2, 3, 4] 1 4 =
     Inr [0xBB, 0xCC, 0xDD, 0xEE]"
  using efi_read_file_statuses [of "firmware_file 0x8000000000000007 0 [0xAA, 0xBB]" 0 "[1, 2, 3, 4]" 4]
    efi_read_file_statuses [of "firmware_file 0 0x8000000000000007 [0xAA, 0xBB]" 0 "[1, 2, 3, 4]" 4]
    efi_read_file_statuses [of "firmware_file 0 0 [0xAA, 0xBB, 0xCC, 0xDD, 0xEE]" 1 "[1, 2, 3, 4]" 4]
  by (simp add: firmware_file_def)

subsection \<open>Names in memory and one pass of the directory loop\<close>

lemma wstr_Nil [simp]: "wstr [] = []"
  by (simp add: wstr_def)

lemma wstr_Cons: "wstr (c # cs) = (if c = 0 then [] else c # wstr cs)"
  by (simp add: wstr_def)

lemma wcslen_terminated: "0 \<in> set buf \<Longrightarrow> wcslen buf = Inr (length (wstr buf))"
  by (induction buf) (auto simp: wstr_Cons)

lemma wcslen_unterminated: "0 \<notin> set buf \<Longrightarrow> wcslen buf = Inl Out_of_bounds"
  by (induction buf) auto

lemma units_of_Cons_0 [simp]: "units_of (c # cs) 0 = Some c"
  by (simp add: units_of_def)

lemma units_of_Cons_Suc [simp]: "(\<lambda>k. units_of (c # cs) (Suc k)) = units_of cs"
  by (rule ext) (simp add: units_of_def)

lemma wcscasecmp_units:
  assumes "0 \<in> set mem"
  shows "\<exists>v. wcscasecmp (units_of mem) s = Inr v \<and> (v = 0 \<longleftrightarrow> ci_equal (wstr mem) (wstr s))"
  using assms
proof (induction s arbitrary: mem)
  case Nil
  then obtain c cs where mem: "mem = c # cs" by (cases mem) auto
  show ?case by (simp add: mem ci_equal_def wstr_Cons uint_diff_0 [where b = 0, simplified])
next
  case (Cons x xs)
  then obtain c cs where mem: "mem = c # cs" by (cases mem) auto
  show ?case
  proof (cases "towupper c \<noteq> 0 \<and> towupper c = towupper x")
    case True
    then have nz: "c \<noteq> 0" "x \<noteq> 0" by auto
    then have "0 \<in> set cs" using Cons.prems mem by auto
    from Cons.IH [OF this] obtain v where
      v: "wcscasecmp (units_of cs) xs = Inr v" "v = 0 \<longleftrightarrow> ci_equal (wstr cs) (wstr xs)"
      by blast
    show ?thesis
      using True nz v by (simp add: mem wstr_Cons ci_equal_def)
  next
    case False
    then show ?thesis
      by (auto simp: mem wstr_Cons ci_equal_def uint_diff_0)
  qed
qed

lemma wstr_L [simp]: "wstr (L ''bootmgfw.efi'') = L ''bootmgfw.efi''"
  "wstr (L ''BCD'') = L ''BCD''" "wstr (L ''.wim'') = L ''.wim''"
  by (simp_all add: wstr_def L_def)

lemma info_unit_name: "(\<lambda>k. info_unit info (int k)) = units_of (FileName info)"
  by (rule ext) (simp add: info_unit_def units_of_def)

lemma name_compare:
  assumes "0 \<in> set (FileName info)"
  shows "\<exists>v. wcscasecmp (\<lambda>k. info_unit info (int k)) s = Inr v \<and>
             (v = 0 \<longleftrightarrow> map towupper (wstr (FileName info)) = map towupper (wstr s))"
  using wcscasecmp_units [OF assms, of s] by (simp add: info_unit_name ci_equal_def)

lemma wim_suffix_start_eq:
  assumes "n < 2 ^ 63"
  shows "wim_suffix_start n = int n - 4"
proof -
  have w: "(word_of_nat n - 4 :: size_t) = word_of_int (int n - 4)"
    by simp
  have "- (2 ^ 63) \<le> int n - 4" "int n - 4 < 2 ^ 63"
    using assms by simp_all
  then have "signed_take_bit 63 (int n - 4) = int n - 4"
    by (rule signed_take_bit_int_eq_self)
  moreover have "sint (word_of_int (int n - 4) :: size_t) = signed_take_bit 63 (int n - 4)"
    by (subst signed_of_int) simp
  ultimately show ?thesis
    unfolding wim_suffix_start_def by (simp only: w)
qed

lemma buffer_split:
  assumes "0 \<in> set buf"
  shows "\<exists>rest. buf = wstr buf @ 0 # rest"
proof -
  have "dropWhile (\<lambda>c. c \<noteq> 0) buf \<noteq> []"
    using assms by (simp add: dropWhile_eq_Nil_conv)
  then obtain c rest where d: "dropWhile (\<lambda>c. c \<noteq> 0) buf = c # rest"
    by (cases "dropWhile (\<lambda>c. c \<noteq> 0) buf") auto
  then have "c = 0" using hd_dropWhile [of "\<lambda>c. c \<noteq> 0" buf] by auto
  then have "buf = wstr buf @ 0 # rest"
    using d takeWhile_dropWhile_id [of "\<lambda>c. c \<noteq> 0" buf] by (simp add: wstr_def)
  then show ?thesis ..
qed

lemma wstr_nonzero: "0 \<notin> set (wstr buf)"
  by (auto simp: wstr_def dest: set_takeWhileD)

lemma wstr_append_0: "0 \<notin> set xs \<Longrightarrow> wstr (xs @ 0 # rest) = xs"
  by (induction xs) (simp_all add: wstr_def)

lemma drop_terminated:
  assumes "0 \<in> set buf" "p \<le> length (wstr buf)"
  shows "0 \<in> set (drop p buf)" "wstr (drop p buf) = drop p (wstr buf)"
proof -
  obtain rest where b: "buf = wstr buf @ 0 # rest"
    using buffer_split [OF assms(1)] by blast
  have d: "drop p buf = drop p (wstr buf) @ 0 # rest"
    using assms(2) by (subst b) simp
  show "0 \<in> set (drop p buf)" by (simp add: d)
  have "0 \<notin> set (drop p (wstr buf))"
    using wstr_nonzero [of buf] by (auto dest: in_set_dropD)
  then show "wstr (drop p buf) = drop p (wstr buf)"
    unfolding d by (rule wstr_append_0)
qed


lemma info_unit_nonneg: "info_unit info (int j) = units_of (FileName info) j"
  by (simp add: info_unit_def units_of_def)

lemma units_of_drop: "p \<le> length mem \<Longrightarrow> units_of mem (p + k) = units_of (drop p mem) k"
  by (auto simp: units_of_def)

lemma info_unit_suffix:
  assumes "p \<le> length (FileName info)"
  shows "(\<lambda>k. info_unit info (int p + int k)) = units_of (drop p (FileName info))"
proof (rule ext)
  fix k
  have "info_unit info (int p + int k) = info_unit info (int (p + k))" by simp
  also have "\<dots> = units_of (FileName info) (p + k)" by (rule info_unit_nonneg)
  also have "\<dots> = units_of (drop p (FileName info)) k" using assms by (rule units_of_drop)
  finally show "info_unit info (int p + int k) = units_of (drop p (FileName info)) k" .
qed

lemma info_unit_before:
  assumes "m \<le> length (info_header info)" "0 < m"
  shows "(\<lambda>k. info_unit info (- int m + int k)) =
         units_of (drop (length (info_header info) - m) (info_header info) @ FileName info)"
proof (rule ext)
  fix k
  let ?h = "info_header info"
  show "info_unit info (- int m + int k) = units_of (drop (length ?h - m) ?h @ FileName info) k"
  proof (cases "k < m")
    case True
    then have neg: "\<not> 0 \<le> - int m + int k" and n: "nat (- (- int m + int k)) = m - k"
      by simp_all
    have "info_unit info (- int m + int k) = Some (?h ! (length ?h - (m - k)))"
      using True assms neg n by (simp add: info_unit_def)
    moreover have "length ?h - m + k = length ?h - (m - k)"
      using True assms by simp
    then have "units_of (drop (length ?h - m) ?h @ FileName info) k = Some (?h ! (length ?h - (m - k)))"
      using True assms by (simp add: units_of_def nth_append)
    ultimately show ?thesis by simp
  next
    case False
    then have pos: "0 \<le> - int m + int k" and n: "- int m + int k = int (k - m)"
      by simp_all
    have "info_unit info (- int m + int k) = units_of (FileName info) (k - m)"
      unfolding n by (rule info_unit_nonneg)
    moreover have "units_of (drop (length ?h - m) ?h @ FileName info) k = units_of (FileName info) (k - m)"
      using False assms by (auto simp: units_of_def nth_append)
    ultimately show ?thesis by simp
  qed
qed

lemma wim_compare:
  assumes "0 \<in> set (FileName info)" "length (FileName info) < 2 ^ 63"
    "4 \<le> length (info_header info)"
  shows "\<exists>v. wcscasecmp
               (\<lambda>k. info_unit info (wim_suffix_start (length (wstr (FileName info))) + int k))
               (L ''.wim'') = Inr v"
proof -
  let ?n = "length (wstr (FileName info))"
  have n: "?n \<le> length (FileName info)"
    by (simp add: wstr_def length_takeWhile_le)
  then have start: "wim_suffix_start ?n = int ?n - 4"
    using assms(2) by (intro wim_suffix_start_eq) simp
  show ?thesis
  proof (cases "4 \<le> ?n")
    case True
    then have "int ?n - 4 = int (?n - 4)" by simp
    moreover have "0 \<in> set (drop (?n - 4) (FileName info))"
      using assms(1) by (intro drop_terminated) simp_all
    moreover have "?n - 4 \<le> length (FileName info)" using n by simp
    ultimately show ?thesis
      using wcscasecmp_units [of "drop (?n - 4) (FileName info)" "L ''.wim''"]
        info_unit_suffix [of "?n - 4" info] start by (simp only:) blast
  next
    case False
    then have "int ?n - 4 = - int (4 - ?n)" by simp
    moreover have "0 \<in> set (drop (length (info_header info) - (4 - ?n)) (info_header info) @ FileName info)"
      using assms(1) by simp
    moreover have "4 - ?n \<le> length (info_header info)" "0 < 4 - ?n"
      using False assms(3) by simp_all
    ultimately show ?thesis
      using wcscasecmp_units [of "drop (length (info_header info) - (4 - ?n)) (info_header info) @ FileName info" "L ''.wim''"]
        info_unit_before [of "4 - ?n" info] start by (simp only:) blast
  qed
qed

lemma wim_test_suffix:
  assumes "0 \<in> set (FileName info)" "length (FileName info) < 2 ^ 63"
    "4 \<le> length (wstr (FileName info))"
  shows "wim_test info \<longleftrightarrow>
         map towupper (drop (length (wstr (FileName info)) - 4) (wstr (FileName info))) =
         map towupper (L ''.wim'')"
proof -
  let ?n = "length (wstr (FileName info))"
  have n: "?n \<le> length (FileName info)"
    by (simp add: wstr_def length_takeWhile_le)
  then have "wim_suffix_start ?n = int ?n - 4"
    using assms(2) by (intro wim_suffix_start_eq) simp
  then have start: "wim_suffix_start ?n = int (?n - 4)"
    using assms(3) by simp
  have le: "?n - 4 \<le> length (FileName info)" using n by simp
  have t: "0 \<in> set (drop (?n - 4) (FileName info))"
    and w: "wstr (drop (?n - 4) (FileName info)) = drop (?n - 4) (wstr (FileName info))"
    using assms(1) by (simp_all add: drop_terminated)
  obtain v where v: "wcscasecmp (units_of (drop (?n - 4) (FileName info))) (L ''.wim'') = Inr v"
    "v = 0 \<longleftrightarrow> ci_equal (wstr (drop (?n - 4) (FileName info))) (wstr (L ''.wim''))"
    using wcscasecmp_units [OF t] by blast
  show ?thesis
    unfolding wim_test_def start info_unit_suffix [OF le]
    using v by (simp add: w ci_equal_def)
qed

lemma copy_bootmgfw_eq:
  assumes "length (bootmgfw st) = sizeof_name cfg" "1 \<le> sizeof_name cfg"
    "sizeof_name cfg \<le> length (FileName info)"
  shows "copy_bootmgfw cfg info st =
         Inr (st\<lparr>bootmgfw := take (sizeof_name cfg - 1) (FileName info) @ [last (bootmgfw st)]\<rparr>)"
proof -
  have n: "(sizeof_bootmgfw cfg - sizeof_wchar_t) div sizeof_wchar_t = sizeof_name cfg - 1"
    by (simp add: sizeof_bootmgfw_def sizeof_wchar_t_def)
  have "bootmgfw st \<noteq> []" using assms by auto
  then have "drop (sizeof_name cfg - 1) (bootmgfw st) = [last (bootmgfw st)]"
    using assms(1)
    by (metis append_butlast_last_id append_eq_conv_conj length_butlast)
  then show ?thesis
    using assms unfolding copy_bootmgfw_def n
    by (auto simp: Let_def on_result_def memcpy_def min_def)
qed

lemma special_case_files_eq:
  assumes "0 \<in> set (FileName info)" "length (FileName info) < 2 ^ 63"
    "4 \<le> length (info_header info)"
  shows "special_case_files cfg info i st =
         (if is_boot_name cfg (wstr (FileName info)) then copy_bootmgfw cfg info st
          else if map towupper (wstr (FileName info)) = map towupper (L ''BCD'')
            then Inr (set_patch i Efi_patch_bcd st)
          else if wim_test info then Inr (set_patch i Patch_wim st)
          else Inr st)"
proof -
  let ?name = "\<lambda>k. info_unit info (int k)"
  obtain r1 where r1: "wcscasecmp ?name (efi_bootarch cfg) = Inr r1"
    "r1 = 0 \<longleftrightarrow> map towupper (wstr (FileName info)) = map towupper (wstr (efi_bootarch cfg))"
    using name_compare [OF assms(1)] by blast
  obtain r2 where r2: "wcscasecmp ?name (L ''bootmgfw.efi'') = Inr r2"
    "r2 = 0 \<longleftrightarrow> map towupper (wstr (FileName info)) = map towupper (L ''bootmgfw.efi'')"
    using name_compare [OF assms(1), of "L ''bootmgfw.efi''"] by auto
  obtain r3 where r3: "wcscasecmp ?name (L ''BCD'') = Inr r3"
    "r3 = 0 \<longleftrightarrow> map towupper (wstr (FileName info)) = map towupper (L ''BCD'')"
    using name_compare [OF assms(1), of "L ''BCD''"] by auto
  obtain r4 where r4: "wcscasecmp
       (\<lambda>k. info_unit info (wim_suffix_start (length (wstr (FileName info))) + int k))
       (L ''.wim'') = Inr r4"
    using wim_compare [OF assms] by blast
  have r4': "r4 = 0 \<longleftrightarrow> wim_test info"
    using r4 by (simp add: wim_test_def)
  show ?thesis
    unfolding special_case_files_def Let_def
    by (simp add: on_result_def r1 r2 r3 r4 r4' wcslen_terminated [OF assms(1)] is_boot_name_def)
qed

lemma add_file_eq:
  assumes "entry_ok cfg r" "idx st < VDISK_MAX_FILES cfg"
    "length (vdisk_files st) = VDISK_MAX_FILES cfg"
    "length (bootmgfw st) = sizeof_name cfg" "1 \<le> sizeof_name cfg"
  shows "add_file cfg r st = Inr (next_state cfg r st)"
proof -
  let ?info = "read_info r"
  let ?name = "wstr (FileName ?info)"
  let ?vfile = "(vdisk_files st ! idx st)
            \<lparr>vf_name := snprintf_ls (sizeof_name cfg) ?name,
             vf_opaque := open_file r,
             vf_len := FileSize ?info,
             vf_read := Some Efi_read_file\<rparr>"
  let ?st1 = "st\<lparr>vdisk_files := (vdisk_files st)[idx st := ?vfile], idx := idx st + 1\<rparr>"
  have ok: "0 \<in> set (FileName ?info)" "length (FileName ?info) < 2 ^ 63"
    "4 \<le> length (info_header ?info)" "sizeof_name cfg \<le> length (FileName ?info)"
    "open_efirc r = 0"
    using assms(1) by (simp_all add: entry_ok_def)
  have tk: "take (length ?name) (FileName ?info) = ?name"
    unfolding wstr_def by (rule takeWhile_eq_take [symmetric])
  have guard: "add_file cfg r st = special_case_files cfg ?info (idx st) ?st1"
    unfolding add_file_def Let_def
    using assms(2,3) ok(5) by (simp add: on_result_def wcslen_terminated [OF ok(1)] tk)
  have i: "idx st < length (vdisk_files st)" using assms(2,3) by simp
  have b1: "length (bootmgfw ?st1) = sizeof_name cfg" using assms(4) by simp
  consider (boot) "is_boot_name cfg ?name"
    | (bcd) "\<not> is_boot_name cfg ?name" "map towupper ?name = map towupper (L ''BCD'')"
    | (wim) "\<not> is_boot_name cfg ?name" "map towupper ?name \<noteq> map towupper (L ''BCD'')"
        "wim_test ?info"
    | (none) "\<not> is_boot_name cfg ?name" "map towupper ?name \<noteq> map towupper (L ''BCD'')"
        "\<not> wim_test ?info"
    by blast
  then show ?thesis
  proof cases
    case boot
    have "special_case_files cfg ?info (idx st) ?st1 = copy_bootmgfw cfg ?info ?st1"
      using boot by (simp add: special_case_files_eq [OF ok(1-3)])
    also have "\<dots> = Inr (?st1\<lparr>bootmgfw :=
        take (sizeof_name cfg - 1) (FileName ?info) @ [last (bootmgfw ?st1)]\<rparr>)"
      using b1 assms(5) ok(4) by (rule copy_bootmgfw_eq)
    also have "\<dots> = Inr (next_state cfg r st)"
      using boot by (simp add: next_state_def Let_def)
    finally show ?thesis using guard by simp
  next
    case bcd
    have "special_case_files cfg ?info (idx st) ?st1 = Inr (set_patch (idx st) Efi_patch_bcd ?st1)"
      using bcd by (simp add: special_case_files_eq [OF ok(1-3)])
    also have "\<dots> = Inr (next_state cfg r st)"
      using bcd i by (simp add: next_state_def Let_def set_patch_def)
    finally show ?thesis using guard by simp
  next
    case wim
    have "special_case_files cfg ?info (idx st) ?st1 = Inr (set_patch (idx st) Patch_wim ?st1)"
      using wim by (simp add: special_case_files_eq [OF ok(1-3)])
    also have "\<dots> = Inr (next_state cfg r st)"
      using wim i by (simp add: next_state_def Let_def set_patch_def)
    finally show ?thesis using guard by simp
  next
    case none
    have "special_case_files cfg ?info (idx st) ?st1 = Inr ?st1"
      using none by (simp add: special_case_files_eq [OF ok(1-3)])
    also have "\<dots> = Inr (next_state cfg r st)"
      using none by (simp add: next_state_def Let_def)
    finally show ?thesis using guard by simp
  qed
qed

lemma passes_Nil [simp]: "passes cfg [] st = st"
  by (simp add: passes_def)

lemma passes_Cons [simp]: "passes cfg (r # rs) st = passes cfg rs (next_state cfg r st)"
  by (simp add: passes_def)

lemma passes_append: "passes cfg (as @ bs) st = passes cfg bs (passes cfg as st)"
  by (simp add: passes_def)

lemma next_state_idx [simp]: "idx (next_state cfg r st) = Suc (idx st)"
  by (simp add: next_state_def Let_def)

lemma next_state_length_files [simp]:
  "length (vdisk_files (next_state cfg r st)) = length (vdisk_files st)"
  by (simp add: next_state_def Let_def)

lemma next_state_bootmgfw:
  "bootmgfw (next_state cfg r st) =
     (if is_boot_name cfg (wstr (FileName (read_info r)))
      then take (sizeof_name cfg - 1) (FileName (read_info r)) @ [last (bootmgfw st)]
      else bootmgfw st)"
  by (simp add: next_state_def Let_def)

lemma next_state_length_bootmgfw:
  assumes "entry_ok cfg r" "length (bootmgfw st) = sizeof_name cfg" "1 \<le> sizeof_name cfg"
  shows "length (bootmgfw (next_state cfg r st)) = sizeof_name cfg"
  using assms by (auto simp: next_state_bootmgfw entry_ok_def min_def)

lemma next_state_fields:
  assumes "idx st < length (vdisk_files st)"
  shows "entry_fields (vdisk_files (next_state cfg r st) ! idx st) = expected_fields cfg r"
  using assms by (simp add: next_state_def Let_def entry_fields_def expected_fields_def)

lemma next_state_other:
  assumes "k \<noteq> idx st"
  shows "vdisk_files (next_state cfg r st) ! k = vdisk_files st ! k"
  using assms by (simp add: next_state_def Let_def)

lemma passes_idx [simp]: "idx (passes cfg rs st) = idx st + length rs"
  by (induction rs arbitrary: st) simp_all

lemma passes_length_files [simp]:
  "length (vdisk_files (passes cfg rs st)) = length (vdisk_files st)"
  by (induction rs arbitrary: st) simp_all

lemma passes_length_bootmgfw:
  assumes "\<forall>r\<in>set rs. entry_ok cfg r" "length (bootmgfw st) = sizeof_name cfg"
    "1 \<le> sizeof_name cfg"
  shows "length (bootmgfw (passes cfg rs st)) = sizeof_name cfg"
  using assms by (induction rs arbitrary: st) (simp_all add: next_state_length_bootmgfw)

lemma passes_below:
  assumes "k < idx st"
  shows "vdisk_files (passes cfg rs st) ! k = vdisk_files st ! k"
  using assms by (induction rs arbitrary: st) (simp_all add: next_state_other)

lemma passes_fields:
  assumes "idx st + length rs \<le> length (vdisk_files st)" "k < length rs"
  shows "entry_fields (vdisk_files (passes cfg rs st) ! (idx st + k)) = expected_fields cfg (rs ! k)"
  using assms
proof (induction rs arbitrary: st k)
  case Nil
  then show ?case by simp
next
  case (Cons r rs)
  show ?case
  proof (cases k)
    case 0
    have "vdisk_files (passes cfg rs (next_state cfg r st)) ! idx st =
          vdisk_files (next_state cfg r st) ! idx st"
      by (rule passes_below) simp
    then show ?thesis
      using Cons.prems 0 by (simp add: next_state_fields)
  next
    case (Suc j)
    have "entry_fields (vdisk_files (passes cfg rs (next_state cfg r st)) !
            (idx (next_state cfg r st) + j)) = expected_fields cfg (rs ! j)"
      using Cons.prems Suc by (intro Cons.IH) simp_all
    then show ?thesis using Suc by simp
  qed
qed

lemma passes_table:
  assumes "idx st = 0" "length rs \<le> length (vdisk_files st)"
  shows "map entry_fields (file_table (passes cfg rs st)) = map (expected_fields cfg) rs"
proof (rule nth_equalityI)
  show "length (map entry_fields (file_table (passes cfg rs st))) =
        length (map (expected_fields cfg) rs)"
    using assms by (simp add: file_table_def)
next
  fix k assume "k < length (map entry_fields (file_table (passes cfg rs st)))"
  then have k: "k < length rs" using assms by (simp add: file_table_def)
  then show "map entry_fields (file_table (passes cfg rs st)) ! k =
             map (expected_fields cfg) rs ! k"
    using assms passes_fields [of st rs k cfg] by (simp add: file_table_def)
qed

lemma read_root_directory_eq:
  assumes "\<forall>r\<in>set rs. entry_ok cfg r" "idx st + length rs \<le> VDISK_MAX_FILES cfg"
    "length (vdisk_files st) = VDISK_MAX_FILES cfg"
    "length (bootmgfw st) = sizeof_name cfg" "1 \<le> sizeof_name cfg"
  shows "read_root_directory cfg rs st = Inr (passes cfg rs st)"
  using assms
proof (induction rs arbitrary: st)
  case Nil
  then show ?case by simp
next
  case (Cons r rs)
  have ok: "entry_ok cfg r" using Cons.prems(1) by simp
  have step: "add_file cfg r st = Inr (next_state cfg r st)"
    using ok Cons.prems by (intro add_file_eq) simp_all
  have "read_root_directory cfg rs (next_state cfg r st) =
        Inr (passes cfg rs (next_state cfg r st))"
    using Cons.prems ok by (intro Cons.IH) (simp_all add: next_state_length_bootmgfw)
  then show ?case
    using ok step by (simp add: entry_ok_def)
qed

lemma read_root_directory_full:
  assumes "\<forall>r\<in>set rs. entry_ok cfg r" "VDISK_MAX_FILES cfg < idx st + length rs"
    "idx st \<le> VDISK_MAX_FILES cfg"
    "length (vdisk_files st) = VDISK_MAX_FILES cfg"
    "length (bootmgfw st) = sizeof_name cfg" "1 \<le> sizeof_name cfg"
  shows "read_root_directory cfg rs st =
         Inl (Die_too_many_files, passes cfg (take (VDISK_MAX_FILES cfg - idx st) rs) st)"
  using assms
proof (induction rs arbitrary: st)
  case Nil
  then show ?case by simp
next
  case (Cons r rs)
  have ok: "entry_ok cfg r" using Cons.prems(1) by simp
  show ?case
  proof (cases "idx st = VDISK_MAX_FILES cfg")
    case True
    then show ?thesis using ok by (simp add: entry_ok_def add_file_def)
  next
    case False
    then have lt: "idx st < VDISK_MAX_FILES cfg" using Cons.prems(3) by simp
    have step: "add_file cfg r st = Inr (next_state cfg r st)"
      using ok lt Cons.prems by (intro add_file_eq) simp_all
    have "read_root_directory cfg rs (next_state cfg r st) =
          Inl (Die_too_many_files,
               passes cfg (take (VDISK_MAX_FILES cfg - idx (next_state cfg r st)) rs)
                 (next_state cfg r st))"
      using Cons.prems ok lt by (intro Cons.IH) (simp_all add: next_state_length_bootmgfw)
    moreover have "take (VDISK_MAX_FILES cfg - idx st) (r # rs) =
                   r # take (VDISK_MAX_FILES cfg - Suc (idx st)) rs"
      using lt by (simp add: take_Cons')
    ultimately show ?thesis
      using ok step by (simp add: entry_ok_def)
  qed
qed

subsection \<open>The whole scan\<close>

lemma final_state_simps [simp]:
  "final_state (Inl (e, st)) = st" "final_state (Inr st) = st"
  by (simp_all add: final_state_def)

lemma failure_simps [simp]:
  "failure (Inl (e, st)) = Some e" "failure (Inr st) = None"
  by (simp_all add: failure_def)

lemma copy_bootmgfw_marker:
  assumes "length (bootmgfw st) = sizeof_name cfg" "1 \<le> sizeof_name cfg"
  shows "length (bootmgfw (final_state (copy_bootmgfw cfg info st))) = sizeof_name cfg \<and>
         last (bootmgfw (final_state (copy_bootmgfw cfg info st))) = last (bootmgfw st)"
proof -
  let ?n = "sizeof_name cfg - 1"
  have n: "(sizeof_bootmgfw cfg - sizeof_wchar_t) div sizeof_wchar_t = ?n"
    by (simp add: sizeof_bootmgfw_def sizeof_wchar_t_def)
  show ?thesis
  proof (cases "length (FileName info) < ?n")
    case True
    then show ?thesis using assms unfolding copy_bootmgfw_def n Let_def by simp
  next
    case False
    then have len: "length (take ?n (FileName info)) = ?n" by simp
    have ne: "drop ?n (bootmgfw st) \<noteq> []" using assms by simp
    have "memcpy (bootmgfw st) 0 (take ?n (FileName info)) =
          Inr (take ?n (FileName info) @ drop ?n (bootmgfw st))"
      unfolding memcpy_def len using assms by simp
    then have "copy_bootmgfw cfg info st =
               Inr (st\<lparr>bootmgfw := take ?n (FileName info) @ drop ?n (bootmgfw st)\<rparr>)"
      using False unfolding copy_bootmgfw_def n Let_def by (simp add: on_result_def)
    then show ?thesis
      using ne assms len by simp
  qed
qed

lemma copy_bootmgfw_rest:
  "idx (final_state (copy_bootmgfw cfg info st)) = idx st \<and>
   length (vdisk_files (final_state (copy_bootmgfw cfg info st))) = length (vdisk_files st)"
  by (simp add: copy_bootmgfw_def Let_def on_result_def split: sum.splits)

lemma special_case_files_marker:
  assumes "length (bootmgfw st) = sizeof_name cfg" "1 \<le> sizeof_name cfg"
  shows "length (bootmgfw (final_state (special_case_files cfg info i st))) = sizeof_name cfg \<and>
         last (bootmgfw (final_state (special_case_files cfg info i st))) = last (bootmgfw st)"
  using copy_bootmgfw_marker [OF assms, of info] assms
  by (simp add: special_case_files_def Let_def on_result_def set_patch_def split: sum.splits)

lemma special_case_files_rest:
  "idx (final_state (special_case_files cfg info i st)) = idx st \<and>
   length (vdisk_files (final_state (special_case_files cfg info i st))) = length (vdisk_files st)"
  using copy_bootmgfw_rest [of cfg info st]
  by (simp add: special_case_files_def Let_def on_result_def set_patch_def split: sum.splits)

lemma add_file_marker:
  assumes "length (bootmgfw st) = sizeof_name cfg" "1 \<le> sizeof_name cfg"
  shows "length (bootmgfw (final_state (add_file cfg r st))) = sizeof_name cfg \<and>
         last (bootmgfw (final_state (add_file cfg r st))) = last (bootmgfw st)"
  using assms
  by (simp add: add_file_def Let_def on_result_def special_case_files_marker split: sum.splits)

lemma add_file_idx:
  assumes "idx st \<le> VDISK_MAX_FILES cfg"
  shows "idx (final_state (add_file cfg r st)) \<le> VDISK_MAX_FILES cfg"
  using assms
  by (simp add: add_file_def Let_def on_result_def special_case_files_rest split: sum.splits)

lemma read_root_directory_marker:
  assumes "length (bootmgfw st) = sizeof_name cfg" "1 \<le> sizeof_name cfg"
  shows "length (bootmgfw (final_state (read_root_directory cfg rs st))) = sizeof_name cfg \<and>
         last (bootmgfw (final_state (read_root_directory cfg rs st))) = last (bootmgfw st)"
  using assms
proof (induction rs arbitrary: st)
  case Nil
  then show ?case by simp
next
  case (Cons r rs)
  show ?case
  proof (cases "add_file cfg r st")
    case (Inl x)
    then show ?thesis
      using add_file_marker [OF Cons.prems, of r] by (cases x) (simp add: Cons.prems)
  next
    case (Inr st')
    then have "length (bootmgfw st') = sizeof_name cfg" "last (bootmgfw st') = last (bootmgfw st)"
      using add_file_marker [OF Cons.prems, of r] by simp_all
    then show ?thesis
      using Cons.IH [of st'] Cons.prems Inr by simp
  qed
qed

lemma read_root_directory_idx:
  assumes "idx st \<le> VDISK_MAX_FILES cfg"
  shows "idx (final_state (read_root_directory cfg rs st)) \<le> VDISK_MAX_FILES cfg"
  using assms
proof (induction rs arbitrary: st)
  case Nil
  then show ?case by simp
next
  case (Cons r rs)
  show ?case
  proof (cases "add_file cfg r st")
    case (Inl x)
    then show ?thesis
      using add_file_idx [OF Cons.prems, of r] by (cases x) (simp add: Cons.prems)
  next
    case (Inr st')
    then have "idx st' \<le> VDISK_MAX_FILES cfg"
      using add_file_idx [OF Cons.prems, of r] by simp
    then show ?thesis
      using Cons.IH [of st'] Cons.prems Inr by simp
  qed
qed

lemma startup_simps [simp]:
  "idx (startup cfg) = 0" "length (vdisk_files (startup cfg)) = VDISK_MAX_FILES cfg"
  "bootmgfw (startup cfg) = replicate (sizeof_name cfg) 0"
  "(startup cfg)\<lparr>idx := 0\<rparr> = startup cfg"
  by (simp_all add: startup_def)

lemma efi_extract_marker:
  assumes "1 \<le> sizeof_name cfg"
  shows "length (bootmgfw (final_state (efi_extract cfg fw (startup cfg)))) = sizeof_name cfg \<and>
         last (bootmgfw (final_state (efi_extract cfg fw (startup cfg)))) = 0"
proof -
  have s: "length (bootmgfw (startup cfg)) = sizeof_name cfg" by simp
  have z: "last (bootmgfw (startup cfg)) = 0" using assms by simp
  show ?thesis
    using read_root_directory_marker [OF s assms, of "root_reads fw"] z s
    by (auto simp: efi_extract_def Let_def split: sum.splits list.splits)
qed

lemma efi_extract_idx:
  "idx (final_state (efi_extract cfg fw (startup cfg))) \<le> VDISK_MAX_FILES cfg"
  using read_root_directory_idx [of "startup cfg" cfg "root_reads fw"]
  by (auto simp: efi_extract_def Let_def split: sum.splits list.splits)

lemma efi_extract_ok:
  assumes "firmware_ok cfg fw" "1 \<le> sizeof_name cfg"
    "length (root_reads fw) \<le> VDISK_MAX_FILES cfg"
  shows "efi_extract cfg fw (startup cfg) =
         (if hd (bootmgfw (passes cfg (root_reads fw) (startup cfg))) = 0
          then Inl (Die_no_boot_file (wstr (efi_bootarch cfg)),
                    passes cfg (root_reads fw) (startup cfg))
          else Inr (passes cfg (root_reads fw) (startup cfg)))"
proof -
  have ok: "\<forall>r\<in>set (root_reads fw). entry_ok cfg r"
    using assms(1) by (simp add: firmware_ok_def)
  have loop: "read_root_directory cfg (root_reads fw) (startup cfg) =
        Inr (passes cfg (root_reads fw) (startup cfg))"
    using ok assms(2,3) by (intro read_root_directory_eq) simp_all
  have "length (bootmgfw (passes cfg (root_reads fw) (startup cfg))) = sizeof_name cfg"
    using ok assms(2) by (intro passes_length_bootmgfw) simp_all
  then obtain c cs where b: "bootmgfw (passes cfg (root_reads fw) (startup cfg)) = c # cs"
    using assms(2) by (cases "bootmgfw (passes cfg (root_reads fw) (startup cfg))") auto
  show ?thesis
    using assms(1) loop b by (simp add: efi_extract_def firmware_ok_def)
qed

lemma efi_extract_full:
  assumes "firmware_ok cfg fw" "1 \<le> sizeof_name cfg"
    "VDISK_MAX_FILES cfg < length (root_reads fw)"
  shows "efi_extract cfg fw (startup cfg) =
         Inl (Die_too_many_files,
              passes cfg (take (VDISK_MAX_FILES cfg) (root_reads fw)) (startup cfg))"
proof -
  have ok: "\<forall>r\<in>set (root_reads fw). entry_ok cfg r"
    using assms(1) by (simp add: firmware_ok_def)
  have "read_root_directory cfg (root_reads fw) (startup cfg) =
        Inl (Die_too_many_files,
             passes cfg (take (VDISK_MAX_FILES cfg - idx (startup cfg)) (root_reads fw))
               (startup cfg))"
    using ok assms(2,3) by (intro read_root_directory_full) simp_all
  then show ?thesis
    using assms(1) by (simp add: efi_extract_def firmware_ok_def)
qed

lemma passes_bootmgfw_none:
  assumes "\<forall>r\<in>set rs. \<not> is_boot_name cfg (wstr (FileName (read_info r)))"
  shows "bootmgfw (passes cfg rs st) = bootmgfw st"
  using assms by (induction rs arbitrary: st) (simp_all add: next_state_bootmgfw)

lemma passes_last_marker: "last (bootmgfw (passes cfg rs st)) = last (bootmgfw st)"
  by (induction rs arbitrary: st) (simp_all add: next_state_bootmgfw)

lemma passes_bootmgfw_last_match:
  assumes "is_boot_name cfg (wstr (FileName (read_info r)))"
    "\<forall>r'\<in>set after. \<not> is_boot_name cfg (wstr (FileName (read_info r')))"
  shows "bootmgfw (passes cfg (before @ r # after) st) =
         take (sizeof_name cfg - 1) (FileName (read_info r)) @ [last (bootmgfw st)]"
  using assms
  by (simp add: passes_append passes_bootmgfw_none next_state_bootmgfw passes_last_marker)

lemma wstr_take_terminated:
  assumes "0 \<in> set buf"
  shows "wstr (take n buf @ [0]) = take n (wstr buf)"
proof -
  obtain rest where b: "buf = wstr buf @ 0 # rest"
    using buffer_split [OF assms] by blast
  show ?thesis
  proof (cases "n \<le> length (wstr buf)")
    case True
    then have "take n buf = take n (wstr buf)"
      by (subst b) simp
    moreover have "0 \<notin> set (take n (wstr buf))"
      using wstr_nonzero [of buf] by (auto dest: in_set_takeD)
    ultimately show ?thesis
      by (simp add: wstr_append_0)
  next
    case False
    then obtain m where m: "n = length (wstr buf) + Suc m"
      by (metis add_Suc_right less_imp_Suc_add not_le)
    have "take n buf = wstr buf @ 0 # take m rest"
      by (subst b) (simp add: m)
    then have "wstr (take n buf @ [0]) = wstr (wstr buf @ 0 # (take m rest @ [0]))"
      by simp
    also have "\<dots> = wstr buf"
      by (rule wstr_append_0) (rule wstr_nonzero)
    finally show ?thesis using False by simp
  qed
qed

lemma boot_name_nonempty:
  assumes "is_boot_name cfg name" "wstr (efi_bootarch cfg) \<noteq> []"
  shows "name \<noteq> []"
  using assms by (auto simp: is_boot_name_def L_def)

lemma split_last_match:
  assumes "\<exists>r\<in>set rs. P r"
  shows "\<exists>before r after. rs = before @ r # after \<and> P r \<and> (\<forall>r'\<in>set after. \<not> P r')"
  using assms by (metis split_list_last_prop)

subsection \<open>The example inputs\<close>

lemma bootarch_example: "efi_bootarch example_config = L ''BOOTX64.EFI''"
  by (simp add: efi_bootarch_def example_config_def L_def)

lemma wstr_padded: "0 \<notin> set xs \<Longrightarrow> wstr (xs @ replicate n 0) = xs"
  by (induction xs) (simp_all add: wstr_def takeWhile_replicate)

lemma dir_entry_simps [simp]:
  "read_efirc (dir_entry name header fsize file) = 0"
  "open_efirc (dir_entry name header fsize file) = 0"
  "open_file (dir_entry name header fsize file) = file"
  "FileSize (read_info (dir_entry name header fsize file)) = fsize"
  "info_header (read_info (dir_entry name header fsize file)) = header"
  "FileName (read_info (dir_entry name header fsize file)) =
     L name @ replicate (32 - length name) 0"
  by (simp_all add: dir_entry_def)

lemma dir_entry_ok:
  assumes "length name < 32" "4 \<le> length header"
  shows "entry_ok example_config (dir_entry name header fsize file)"
proof -
  let ?n = "80 + 2 * (length name + 1)"
  have "?n < 2 ^ 64" using assms(1) by simp
  then have "unat (word_of_nat ?n :: 64 word) = ?n"
    by (intro of_nat_inverse) simp_all
  then have "unat (word_of_nat ?n :: 64 word) \<noteq> 0" by simp
  then have "(word_of_nat ?n :: 64 word) \<noteq> 0"
    using unat_0 by metis
  then have "read_size (dir_entry name header fsize file) \<noteq> 0"
    by (simp add: dir_entry_def del: of_nat_add of_nat_mult)
  then show ?thesis
    using assms by (simp add: entry_ok_def example_config_def L_def)
qed

lemma wstr_replicate_0 [simp]: "wstr (replicate n 0) = []"
  by (cases n) (simp_all add: wstr_def)

lemma wstr_zeros [simp]: "wstr (replicate n 0 @ 0 # xs) = []"
  by (cases n) (simp_all add: wstr_def)

lemma example_config_simps [simp]:
  "sizeof_name example_config = 32" "VDISK_MAX_FILES example_config = 3"
  by (simp_all add: example_config_def)

lemma root_reads_example [simp]: "root_reads (example_firmware rs) = rs"
  by (simp add: example_firmware_def)

lemma marker_string:
  assumes "0 \<in> set buf"
  shows "wstr (take n buf @ [last (replicate (Suc m) 0)]) = take n (wstr buf)"
  using wstr_take_terminated [OF assms] by simp

lemmas example_eval = is_boot_name_def bootarch_example L_def towupper_def wstr_Cons

lemma example_directory_ok: "firmware_ok example_config (example_firmware example_directory)"
  by (simp add: firmware_ok_def example_firmware_def example_directory_def dir_entry_ok archive_def)

lemma example_names:
  "wstr (L ''bootx64.efi'' @ replicate n 0) = L ''bootx64.efi''"
  "wstr (L ''bootmgfw.efi'' @ replicate n 0) = L ''bootmgfw.efi''"
  "wstr (L ''BCD'' @ replicate n 0) = L ''BCD''"
  "wstr (L ''boot.wim'' @ replicate n 0) = L ''boot.wim''"
  by (simp_all add: L_def wstr_Cons)

lemma example_boot_names:
  "is_boot_name example_config (L ''bootx64.efi'')"
  "is_boot_name example_config (L ''bootmgfw.efi'')"
  "\<not> is_boot_name example_config (L ''BCD'')"
  "\<not> is_boot_name example_config (L ''boot.wim'')"
  by (simp_all add: example_eval)

lemma example_directory_small:
  "1 \<le> sizeof_name example_config"
  "2 \<le> sizeof_name example_config"
  "length (root_reads (example_firmware example_directory)) \<le> VDISK_MAX_FILES example_config"
  by (simp_all add: example_directory_def)

lemma example_wim_ok:
  "firmware_ok example_config
     (example_firmware (example_directory @ [dir_entry ''boot.wim'' archive 8192 4]))"
  by (simp add: firmware_ok_def example_firmware_def example_directory_def dir_entry_ok archive_def)

lemma example_no_boot_ok:
  "firmware_ok example_config
     (example_firmware [dir_entry ''BCD'' archive 4096 3, dir_entry ''boot.wim'' archive 8192 4])"
  by (simp add: firmware_ok_def example_firmware_def dir_entry_ok archive_def)

subsection \<open>C2: names shorter than four characters\<close>

text \<open>
  The start of the last test, \<^verbatim>\<open>name + ( wcslen ( name ) - 4 )\<close>, lies before the name
  when the name has fewer than four characters: where no memory is before the name, the
  comparison ends in an out-of-bounds read, and so do the special cases as a whole when
  none of the first three tests takes the name.
\<close>

lemma wim_compare_out_of_bounds:
  assumes "n < 4" "info_header info = []"
  shows "wcscasecmp (\<lambda>k. info_unit info (wim_suffix_start n + int k)) (L ''.wim'') =
         Inl Out_of_bounds"
proof -
  have "wim_suffix_start n = int n - 4"
    using assms(1) by (intro wim_suffix_start_eq) simp
  then have "wim_suffix_start n < 0" using assms(1) by simp
  then have "info_unit info (wim_suffix_start n + int 0) = None"
    using assms(2) by (simp add: info_unit_def)
  then show ?thesis
    by (simp add: L_def)
qed

lemma special_case_files_short:
  assumes "0 \<in> set (FileName info)" "length (wstr (FileName info)) < 4"
    "info_header info = []"
    "\<not> is_boot_name cfg (wstr (FileName info))"
    "map towupper (wstr (FileName info)) \<noteq> map towupper (L ''BCD'')"
  shows "special_case_files cfg info i st = Inl (Out_of_bounds, st)"
proof -
  let ?name = "\<lambda>k. info_unit info (int k)"
  obtain r1 where r1: "wcscasecmp ?name (efi_bootarch cfg) = Inr r1"
    "r1 = 0 \<longleftrightarrow> map towupper (wstr (FileName info)) = map towupper (wstr (efi_bootarch cfg))"
    using name_compare [OF assms(1)] by blast
  obtain r2 where r2: "wcscasecmp ?name (L ''bootmgfw.efi'') = Inr r2"
    "r2 = 0 \<longleftrightarrow> map towupper (wstr (FileName info)) = map towupper (L ''bootmgfw.efi'')"
    using name_compare [OF assms(1), of "L ''bootmgfw.efi''"] by auto
  obtain r3 where r3: "wcscasecmp ?name (L ''BCD'') = Inr r3"
    "r3 = 0 \<longleftrightarrow> map towupper (wstr (FileName info)) = map towupper (L ''BCD'')"
    using name_compare [OF assms(1), of "L ''BCD''"] by auto
  have n1: "r1 \<noteq> 0" "r2 \<noteq> 0" using assms(4) r1(2) r2(2) by (simp_all add: is_boot_name_def)
  have n3: "r3 \<noteq> 0" using assms(5) r3(2) by simp
  have r4: "wcscasecmp
       (\<lambda>k. info_unit info (wim_suffix_start (length (wstr (FileName info))) + int k))
       (L ''.wim'') = Inl Out_of_bounds"
    using assms(2,3) by (rule wim_compare_out_of_bounds)
  show ?thesis
    unfolding special_case_files_def Let_def
    by (simp add: on_result_def r1(1) r2(1) r3(1) n1 n3 r4 wcslen_terminated [OF assms(1)])
qed

text \<open>
  C2 says that for a name shorter than four characters the suffix comparison reads
  nothing outside the name buffer, behind a guard on the length. The code has no guard:
  \<^verbatim>\<open>wcslen ( name ) - 4\<close> wraps round and \<^verbatim>\<open>wcscasecmp\<close> starts before the name. For
  every directory entry whose name is NUL-terminated, shorter than four characters and
  not taken by one of the first three tests, on a record of which only the name buffer
  is in the store: the special cases of \<^verbatim>\<open>efi_extract\<close> end in an out-of-bounds read,
  in whatever state they start, and so does the pass of the loop that adds the file.
\<close>

theorem short_name_suffix_test_out_of_bounds:
  assumes "0 \<in> set (FileName (read_info r))" "length (wstr (FileName (read_info r))) < 4"
    "info_header (read_info r) = []"
    "\<not> is_boot_name cfg (wstr (FileName (read_info r)))"
    "map towupper (wstr (FileName (read_info r))) \<noteq> map towupper (L ''BCD'')"
    "open_efirc r = 0" "idx st < VDISK_MAX_FILES cfg" "idx st < length (vdisk_files st)"
  shows "special_case_files cfg (read_info r) i s = Inl (Out_of_bounds, s) \<and>
         failure (add_file cfg r st) = Some Out_of_bounds"
proof -
  have a: "special_case_files cfg (read_info r) i s = Inl (Out_of_bounds, s)" for i s
    using assms(1-5) by (rule special_case_files_short)
  have "failure (add_file cfg r st) = Some Out_of_bounds"
    unfolding add_file_def Let_def
    using assms(6-8)
    by (simp add: on_result_def wcslen_terminated [OF assms(1)] a failure_def)
  then show ?thesis using a by simp
qed

text \<open>The theorem at the name \<^verbatim>\<open>a\<close>, of length 1, in the startup state.\<close>

theorem short_name_suffix_test_out_of_bounds_witness:
  "0 \<in> set (FileName (read_info name_only_entry)) \<and>
   length (wstr (FileName (read_info name_only_entry))) < 4 \<and>
   info_header (read_info name_only_entry) = [] \<and>
   \<not> is_boot_name example_config (wstr (FileName (read_info name_only_entry))) \<and>
   map towupper (wstr (FileName (read_info name_only_entry))) \<noteq> map towupper (L ''BCD'') \<and>
   open_efirc name_only_entry = 0 \<and>
   idx (startup example_config) < VDISK_MAX_FILES example_config \<and>
   idx (startup example_config) < length (vdisk_files (startup example_config)) \<and>
   special_case_files example_config name_only_info 0 (startup example_config) =
     Inl (Out_of_bounds, startup example_config) \<and>
   failure (add_file example_config name_only_entry (startup example_config)) =
     Some Out_of_bounds"
proof -
  have i: "read_info name_only_entry = name_only_info" "open_efirc name_only_entry = 0"
    by (simp_all add: name_only_entry_def)
  have n: "wstr (FileName name_only_info) = L ''a''"
    by (simp add: name_only_info_def L_def wstr_Cons)
  have h: "0 \<in> set (FileName (read_info name_only_entry))"
    "length (wstr (FileName (read_info name_only_entry))) < 4"
    "info_header (read_info name_only_entry) = []"
    "\<not> is_boot_name example_config (wstr (FileName (read_info name_only_entry)))"
    "map towupper (wstr (FileName (read_info name_only_entry))) \<noteq> map towupper (L ''BCD'')"
    unfolding i n
    by (simp_all add: name_only_info_def example_eval)
  have s: "idx (startup example_config) < VDISK_MAX_FILES example_config"
    "idx (startup example_config) < length (vdisk_files (startup example_config))"
    by simp_all
  show ?thesis
    using short_name_suffix_test_out_of_bounds [OF h i(2) s, of 0 "startup example_config"]
      h i(2) s
    by (simp add: i)
qed

subsection \<open>C5: the order of the classification rules\<close>

text \<open>
  The architecture boot file name is the part of the compiled-in path after its last
  backslash. For a name of at least four characters the last test compares its final
  four characters; for a shorter name it compares the code units before the name
  together with the name, and fails on a record whose attribute word has its bits 16
  to 63 zero. So the tests of the code are the rules of the specification, in their
  order.
\<close>

lemma takeWhile_absent: "x \<notin> set xs \<Longrightarrow> takeWhile (\<lambda>c. c \<noteq> x) (xs @ ys) = xs @ takeWhile (\<lambda>c. c \<noteq> x) ys"
  by (induction xs) auto

lemma takeWhile_present: "x \<in> set xs \<Longrightarrow> takeWhile (\<lambda>c. c \<noteq> x) (xs @ ys) = takeWhile (\<lambda>c. c \<noteq> x) xs"
  by (induction xs) auto

lemma efi_bootarch_loop_component:
  assumes "0 \<notin> set p"
  shows "efi_bootarch_loop p b =
         (if 0x5C \<in> set p then rev (takeWhile (\<lambda>c. c \<noteq> 0x5C) (rev p)) else b)"
  using assms
proof (induction p arbitrary: b)
  case Nil
  then show ?case by simp
next
  case (Cons c tmp)
  then have c: "c \<noteq> 0" and t: "0 \<notin> set tmp" by auto
  show ?case
  proof (cases "0x5C \<in> set tmp")
    case True
    then have "takeWhile (\<lambda>c. c \<noteq> 0x5C) (rev tmp @ [c]) = takeWhile (\<lambda>c. c \<noteq> 0x5C) (rev tmp)"
      by (intro takeWhile_present) simp
    then show ?thesis using True c Cons.IH [OF t] by simp
  next
    case False
    then have "takeWhile (\<lambda>c. c \<noteq> 0x5C) (rev tmp @ [c]) =
               rev tmp @ (if c = 0x5C then [] else [c])"
      by (simp add: takeWhile_absent)
    then show ?thesis using False c Cons.IH [OF t] by (cases "c = 0x5C") simp_all
  qed
qed

lemma efi_bootarch_component:
  assumes "0 \<notin> set (EFI_REMOVABLE_MEDIA_FILE_NAME cfg)"
  shows "efi_bootarch cfg =
         rev (takeWhile (\<lambda>c. c \<noteq> 0x5C) (rev (EFI_REMOVABLE_MEDIA_FILE_NAME cfg)))"
proof (cases "0x5C \<in> set (EFI_REMOVABLE_MEDIA_FILE_NAME cfg)")
  case True
  then show ?thesis
    unfolding efi_bootarch_def by (simp add: efi_bootarch_loop_component [OF assms])
next
  case False
  then have "takeWhile (\<lambda>c. c \<noteq> 0x5C) (rev (EFI_REMOVABLE_MEDIA_FILE_NAME cfg)) =
             rev (EFI_REMOVABLE_MEDIA_FILE_NAME cfg)"
    using takeWhile_absent [of "0x5C" "rev (EFI_REMOVABLE_MEDIA_FILE_NAME cfg)" "[]"] by simp
  then have "rev (takeWhile (\<lambda>c. c \<noteq> 0x5C) (rev (EFI_REMOVABLE_MEDIA_FILE_NAME cfg))) =
             EFI_REMOVABLE_MEDIA_FILE_NAME cfg"
    by (simp only: rev_rev_ident)
  moreover have "efi_bootarch cfg = EFI_REMOVABLE_MEDIA_FILE_NAME cfg"
    using False unfolding efi_bootarch_def by (simp add: efi_bootarch_loop_component [OF assms])
  ultimately show ?thesis by simp
qed

lemma wim_test_short:
  assumes "0 \<in> set (FileName info)" "length (FileName info) < 2 ^ 63"
    "4 \<le> length (info_header info)" "length (wstr (FileName info)) < 4"
  shows "wim_test info \<longleftrightarrow>
         map towupper
           (wstr (drop (length (info_header info) - (4 - length (wstr (FileName info))))
                    (info_header info) @ FileName info)) =
         map towupper (L ''.wim'')"
proof -
  let ?n = "length (wstr (FileName info))"
  let ?mem = "drop (length (info_header info) - (4 - ?n)) (info_header info) @ FileName info"
  have n: "?n \<le> length (FileName info)"
    by (simp add: wstr_def length_takeWhile_le)
  then have "wim_suffix_start ?n = int ?n - 4"
    using assms(2) by (intro wim_suffix_start_eq) simp
  then have start: "wim_suffix_start ?n = - int (4 - ?n)"
    using assms(4) by simp
  have m: "4 - ?n \<le> length (info_header info)" "0 < 4 - ?n"
    using assms(3,4) by simp_all
  have t: "0 \<in> set ?mem" using assms(1) by simp
  obtain v where v: "wcscasecmp (units_of ?mem) (L ''.wim'') = Inr v"
    "v = 0 \<longleftrightarrow> ci_equal (wstr ?mem) (wstr (L ''.wim''))"
    using wcscasecmp_units [OF t] by blast
  show ?thesis
    unfolding wim_test_def start info_unit_before [OF m]
    using v by (simp add: ci_equal_def)
qed

lemma wstr_nonzero_id: "0 \<notin> set xs \<Longrightarrow> wstr xs = xs"
  using wstr_padded [of xs 0] by simp

lemma final_component_nonzero: "0 \<notin> set path \<Longrightarrow> 0 \<notin> set (final_component path)"
  unfolding final_component_def by (auto dest: set_takeWhileD)

lemma is_boot_name_classify:
  assumes "0 \<notin> set (EFI_REMOVABLE_MEDIA_FILE_NAME cfg)"
  shows "is_boot_name cfg name \<longleftrightarrow>
         ci_equal name (final_component (EFI_REMOVABLE_MEDIA_FILE_NAME cfg)) \<or>
         ci_equal name (L ''bootmgfw.efi'')"
proof -
  have "efi_bootarch cfg = final_component (EFI_REMOVABLE_MEDIA_FILE_NAME cfg)"
    unfolding final_component_def using assms by (rule efi_bootarch_component)
  moreover have "wstr (final_component (EFI_REMOVABLE_MEDIA_FILE_NAME cfg)) =
                 final_component (EFI_REMOVABLE_MEDIA_FILE_NAME cfg)"
    using assms by (intro wstr_nonzero_id final_component_nonzero)
  ultimately show ?thesis
    by (simp add: is_boot_name_def ci_equal_def)
qed

lemma header_attribute:
  assumes "4 \<le> length h" "drop (length h - 3) h = [0, 0, 0]"
  shows "\<exists>hs a. h = hs @ [a, 0, 0, 0]"
proof -
  have "length h - 4 < length h" using assms(1) by simp
  then have "drop (length h - 4) h = h ! (length h - 4) # drop (Suc (length h - 4)) h"
    by (simp add: Cons_nth_drop_Suc)
  moreover have "Suc (length h - 4) = length h - 3" using assms(1) by simp
  ultimately have "drop (length h - 4) h = [h ! (length h - 4), 0, 0, 0]"
    using assms(2) by simp
  then have "h = take (length h - 4) h @ [h ! (length h - 4), 0, 0, 0]"
    by (metis append_take_drop_id)
  then show ?thesis by blast
qed

lemma wim_test_attribute:
  assumes "0 \<in> set (FileName info)" "length (FileName info) < 2 ^ 63"
    "4 \<le> length (info_header info)" "attribute_ok info"
    "length (wstr (FileName info)) < 4"
  shows "\<not> wim_test info"
proof -
  let ?n = "length (wstr (FileName info))"
  obtain hs a where h: "info_header info = hs @ [a, 0, 0, 0]"
    using header_attribute [OF assms(3)] assms(4) unfolding attribute_ok_def by blast
  obtain rest where f: "FileName info = wstr (FileName info) @ 0 # rest"
    using buffer_split [OF assms(1)] by blast
  have d: "drop (length (info_header info) - (4 - ?n)) (info_header info) = drop ?n [a, 0, 0, 0]"
    using assms(5) by (simp add: h)
  have "length (wstr (drop ?n [a, 0, 0, 0] @ FileName info)) \<le> 1"
  proof (cases "?n = 0")
    case True
    then have "wstr (FileName info) = []" by simp
    then have "wstr (drop ?n [a, 0, 0, 0] @ FileName info) = wstr [a, 0, 0, 0]"
      by (simp add: wstr_Cons)
    then show ?thesis by (simp add: wstr_Cons)
  next
    case False
    then obtain m where m: "?n = Suc m" by (cases ?n) auto
    then have "m < 3" using assms(5) by simp
    then have "m = 0 \<or> m = 1 \<or> m = 2" by auto
    then have "\<exists>tl. drop ?n [a, 0, 0, 0] = 0 # tl"
      unfolding m by auto
    then show ?thesis by (auto simp: wstr_Cons)
  qed
  then have "length (map towupper (wstr (drop ?n [a, 0, 0, 0] @ FileName info))) \<noteq>
             length (map towupper (L ''.wim''))"
    by (simp add: L_def)
  then have "map towupper (wstr (drop ?n [a, 0, 0, 0] @ FileName info)) \<noteq>
             map towupper (L ''.wim'')"
    by metis
  then show ?thesis
    unfolding wim_test_short [OF assms(1,2,3,5)] d .
qed

lemma wim_test_classify:
  assumes "entry_ok cfg r" "attribute_ok (read_info r)"
  shows "wim_test (read_info r) \<longleftrightarrow>
         4 \<le> length (wstr (FileName (read_info r))) \<and>
         ci_equal (drop (length (wstr (FileName (read_info r))) - 4)
                     (wstr (FileName (read_info r)))) (L ''.wim'')"
proof (cases "4 \<le> length (wstr (FileName (read_info r)))")
  case True
  then show ?thesis
    using assms(1) by (simp add: wim_test_suffix entry_ok_def ci_equal_def)
next
  case False
  then have "\<not> wim_test (read_info r)"
    using assms by (intro wim_test_attribute) (simp_all add: entry_ok_def)
  then show ?thesis using False by simp
qed

lemma next_state_patch:
  assumes "entry_ok cfg r" "attribute_ok (read_info r)"
    "0 \<notin> set (EFI_REMOVABLE_MEDIA_FILE_NAME cfg)"
    "idx st < length (vdisk_files st)"
  shows "vf_patch (vdisk_files (next_state cfg r st) ! idx st) =
         (case patch_of (classify cfg (wstr (FileName (read_info r)))) of
            Some p \<Rightarrow> Some p
          | None \<Rightarrow> vf_patch (vdisk_files st ! idx st))"
proof -
  let ?name = "wstr (FileName (read_info r))"
  have b: "is_boot_name cfg ?name \<longleftrightarrow>
         ci_equal ?name (final_component (EFI_REMOVABLE_MEDIA_FILE_NAME cfg)) \<or>
         ci_equal ?name (L ''bootmgfw.efi'')"
    using assms(3) by (rule is_boot_name_classify)
  have w: "wim_test (read_info r) \<longleftrightarrow>
         4 \<le> length ?name \<and> ci_equal (drop (length ?name - 4) ?name) (L ''.wim'')"
    using assms(1,2) by (rule wim_test_classify)
  have c: "map towupper ?name = map towupper (L ''BCD'') \<longleftrightarrow> ci_equal ?name (L ''BCD'')"
    by (simp add: ci_equal_def)
  have "vf_patch (vdisk_files (next_state cfg r st) ! idx st) =
        (if is_boot_name cfg ?name then vf_patch (vdisk_files st ! idx st)
         else if map towupper ?name = map towupper (L ''BCD'') then Some Efi_patch_bcd
         else if wim_test (read_info r) then Some Patch_wim
         else vf_patch (vdisk_files st ! idx st))"
    using assms(4) by (simp add: next_state_def Let_def)
  then show ?thesis
    unfolding b w c by (simp add: classify_def)
qed

lemma next_state_marker:
  assumes "0 \<notin> set (EFI_REMOVABLE_MEDIA_FILE_NAME cfg)"
  shows "bootmgfw (next_state cfg r st) =
         (if boot_tag (classify cfg (wstr (FileName (read_info r))))
          then take (sizeof_name cfg - 1) (FileName (read_info r)) @ [last (bootmgfw st)]
          else bootmgfw st)"
proof -
  have "boot_tag (classify cfg name) \<longleftrightarrow> is_boot_name cfg name" for name
    unfolding is_boot_name_classify [OF assms] by (simp add: classify_def boot_tag_def)
  then show ?thesis
    by (simp add: next_state_bootmgfw)
qed

lemma add_file_classify:
  assumes "entry_ok cfg r" "attribute_ok (read_info r)"
    "0 \<notin> set (EFI_REMOVABLE_MEDIA_FILE_NAME cfg)" "1 \<le> sizeof_name cfg"
    "idx st < VDISK_MAX_FILES cfg" "length (vdisk_files st) = VDISK_MAX_FILES cfg"
    "length (bootmgfw st) = sizeof_name cfg"
  shows "failure (add_file cfg r st) = None \<and>
         vf_patch (vdisk_files (final_state (add_file cfg r st)) ! idx st) =
           (case patch_of (classify cfg (wstr (FileName (read_info r)))) of
              Some p \<Rightarrow> Some p
            | None \<Rightarrow> vf_patch (vdisk_files st ! idx st)) \<and>
         bootmgfw (final_state (add_file cfg r st)) =
           (if boot_tag (classify cfg (wstr (FileName (read_info r))))
            then take (sizeof_name cfg - 1) (FileName (read_info r)) @ [last (bootmgfw st)]
            else bootmgfw st)"
proof -
  have eq: "add_file cfg r st = Inr (next_state cfg r st)"
    using assms(1,5,6,7,4) by (rule add_file_eq)
  have i: "idx st < length (vdisk_files st)" using assms(5,6) by simp
  show ?thesis
    unfolding eq
    using next_state_patch [OF assms(1,2,3) i] next_state_marker [OF assms(3), of r st]
    by simp
qed

lemma passes_patch:
  assumes "\<forall>r\<in>set rs. entry_ok cfg r \<and> attribute_ok (read_info r)"
    "0 \<notin> set (EFI_REMOVABLE_MEDIA_FILE_NAME cfg)"
    "idx st + length rs \<le> length (vdisk_files st)"
    "\<forall>j. idx st \<le> j \<and> j < length (vdisk_files st) \<longrightarrow> vf_patch (vdisk_files st ! j) = None"
    "k < length rs"
  shows "vf_patch (vdisk_files (passes cfg rs st) ! (idx st + k)) =
         patch_of (classify cfg (wstr (FileName (read_info (rs ! k)))))"
  using assms
proof (induction rs arbitrary: st k)
  case Nil
  then show ?case by simp
next
  case (Cons r rs)
  have i: "idx st < length (vdisk_files st)" using Cons.prems(3) by simp
  show ?case
  proof (cases k)
    case 0
    have "vdisk_files (passes cfg rs (next_state cfg r st)) ! idx st =
          vdisk_files (next_state cfg r st) ! idx st"
      by (rule passes_below) simp
    moreover have "vf_patch (vdisk_files st ! idx st) = None"
      using Cons.prems(4) i by simp
    then have "vf_patch (vdisk_files (next_state cfg r st) ! idx st) =
         patch_of (classify cfg (wstr (FileName (read_info r))))"
      using Cons.prems(1,2) i by (subst next_state_patch) (simp_all split: option.splits)
    ultimately show ?thesis using 0 by simp
  next
    case (Suc j)
    have inv: "\<forall>j. idx (next_state cfg r st) \<le> j \<and> j < length (vdisk_files (next_state cfg r st))
        \<longrightarrow> vf_patch (vdisk_files (next_state cfg r st) ! j) = None"
      using Cons.prems(4) by (simp add: next_state_other)
    have "vf_patch (vdisk_files (passes cfg rs (next_state cfg r st)) !
            (idx (next_state cfg r st) + j)) =
          patch_of (classify cfg (wstr (FileName (read_info (rs ! j)))))"
      using Cons.prems(1,2,3,5) Suc inv by (intro Cons.IH) simp_all
    then show ?thesis using Suc by simp
  qed
qed

lemma passes_patch_table:
  assumes "\<forall>r\<in>set rs. entry_ok cfg r \<and> attribute_ok (read_info r)"
    "0 \<notin> set (EFI_REMOVABLE_MEDIA_FILE_NAME cfg)"
    "length rs \<le> VDISK_MAX_FILES cfg"
  shows "map vf_patch (file_table (passes cfg rs (startup cfg))) =
         map (\<lambda>r. patch_of (classify cfg (wstr (FileName (read_info r))))) rs"
proof (rule nth_equalityI)
  show "length (map vf_patch (file_table (passes cfg rs (startup cfg)))) =
        length (map (\<lambda>r. patch_of (classify cfg (wstr (FileName (read_info r))))) rs)"
    using assms(3) by (simp add: file_table_def)
next
  fix k assume "k < length (map vf_patch (file_table (passes cfg rs (startup cfg))))"
  then have k: "k < length rs" using assms(3) by (simp add: file_table_def)
  have z: "\<forall>j. idx (startup cfg) \<le> j \<and> j < length (vdisk_files (startup cfg)) \<longrightarrow>
      vf_patch (vdisk_files (startup cfg) ! j) = None"
    by (simp add: startup_def zero_file_def)
  have "vf_patch (vdisk_files (passes cfg rs (startup cfg)) ! (idx (startup cfg) + k)) =
         patch_of (classify cfg (wstr (FileName (read_info (rs ! k)))))"
    using assms(1,2) _ z k by (rule passes_patch) (simp add: assms(3))
  then show "map vf_patch (file_table (passes cfg rs (startup cfg))) ! k =
      map (\<lambda>r. patch_of (classify cfg (wstr (FileName (read_info r))))) rs ! k"
    using k assms(3) by (simp add: file_table_def)
qed

text \<open>
  C5. Take a firmware that keeps its side of the scan and leaves bits 16 to 63 of the
  attribute word of every record zero, and a compiled-in boot path without a NUL in it.
  The architecture boot file name that \<^verbatim>\<open>efi_bootarch\<close> computes is the final component
  of the path. In the table at the end of a scan from the startup state, the patch
  function of every descriptor is the one that the rules of the specification give for
  its name, the first matching rule deciding: the BCD patcher for rule 3, the WIM
  patcher for rule 4, none for any other name, names shorter than four characters
  included. And every pass of the loop over an entry of the directory, in whatever
  state with room in the table, succeeds, attaches that patch function to the new
  descriptor or leaves the field as it was, and updates the boot-file marker exactly
  when rule 1 or 2 classifies the name.
\<close>

theorem classification_first_rule:
  assumes "firmware_ok cfg fw" "\<forall>r\<in>set (root_reads fw). attribute_ok (read_info r)"
    "1 \<le> sizeof_name cfg" "0 \<notin> set (EFI_REMOVABLE_MEDIA_FILE_NAME cfg)"
  shows "efi_bootarch cfg = final_component (EFI_REMOVABLE_MEDIA_FILE_NAME cfg) \<and>
         map vf_patch (file_table (final_state (efi_extract cfg fw (startup cfg)))) =
         map (\<lambda>r. patch_of (classify cfg (wstr (FileName (read_info r)))))
           (take (VDISK_MAX_FILES cfg) (root_reads fw)) \<and>
         (\<forall>r\<in>set (root_reads fw). \<forall>st.
            idx st < VDISK_MAX_FILES cfg \<and> length (vdisk_files st) = VDISK_MAX_FILES cfg \<and>
            length (bootmgfw st) = sizeof_name cfg \<longrightarrow>
            failure (add_file cfg r st) = None \<and>
            vf_patch (vdisk_files (final_state (add_file cfg r st)) ! idx st) =
              (case patch_of (classify cfg (wstr (FileName (read_info r)))) of
                 Some p \<Rightarrow> Some p
               | None \<Rightarrow> vf_patch (vdisk_files st ! idx st)) \<and>
            bootmgfw (final_state (add_file cfg r st)) =
              (if boot_tag (classify cfg (wstr (FileName (read_info r))))
               then take (sizeof_name cfg - 1) (FileName (read_info r)) @ [last (bootmgfw st)]
               else bootmgfw st))"
proof -
  let ?rs = "take (VDISK_MAX_FILES cfg) (root_reads fw)"
  have arch: "efi_bootarch cfg = final_component (EFI_REMOVABLE_MEDIA_FILE_NAME cfg)"
    unfolding final_component_def using assms(4) by (rule efi_bootarch_component)
  have ok: "\<forall>r\<in>set ?rs. entry_ok cfg r \<and> attribute_ok (read_info r)"
    using assms(1,2) by (auto simp: firmware_ok_def dest: in_set_takeD)
  have table: "map vf_patch (file_table (passes cfg ?rs (startup cfg))) =
         map (\<lambda>r. patch_of (classify cfg (wstr (FileName (read_info r))))) ?rs"
    using ok assms(4) by (rule passes_patch_table) simp
  have "final_state (efi_extract cfg fw (startup cfg)) = passes cfg ?rs (startup cfg)"
  proof (cases "length (root_reads fw) \<le> VDISK_MAX_FILES cfg")
    case True
    then show ?thesis
      using efi_extract_ok [OF assms(1,3) True] by simp
  next
    case False
    then have "VDISK_MAX_FILES cfg < length (root_reads fw)" by simp
    then show ?thesis
      using efi_extract_full [OF assms(1,3)] by simp
  qed
  then have scan: "map vf_patch (file_table (final_state (efi_extract cfg fw (startup cfg)))) =
         map (\<lambda>r. patch_of (classify cfg (wstr (FileName (read_info r))))) ?rs"
    using table by simp
  have pass: "failure (add_file cfg r st) = None \<and>
            vf_patch (vdisk_files (final_state (add_file cfg r st)) ! idx st) =
              (case patch_of (classify cfg (wstr (FileName (read_info r)))) of
                 Some p \<Rightarrow> Some p
               | None \<Rightarrow> vf_patch (vdisk_files st ! idx st)) \<and>
            bootmgfw (final_state (add_file cfg r st)) =
              (if boot_tag (classify cfg (wstr (FileName (read_info r))))
               then take (sizeof_name cfg - 1) (FileName (read_info r)) @ [last (bootmgfw st)]
               else bootmgfw st)"
    if "r \<in> set (root_reads fw)" "idx st < VDISK_MAX_FILES cfg"
      "length (vdisk_files st) = VDISK_MAX_FILES cfg" "length (bootmgfw st) = sizeof_name cfg"
    for r st
  proof -
    have "entry_ok cfg r" "attribute_ok (read_info r)"
      using assms(1,2) that(1) by (simp_all add: firmware_ok_def)
    then show ?thesis
      using assms(4,3) that(2-4) by (rule add_file_classify)
  qed
  show ?thesis
    using arch scan pass by blast
qed

lemma short_name_directory_ok:
  "firmware_ok example_config (example_firmware short_name_directory)"
  by (simp add: firmware_ok_def example_firmware_def short_name_directory_def dir_entry_ok
      archive_def)

lemma example_final_component:
  "final_component (EFI_REMOVABLE_MEDIA_FILE_NAME example_config) = L ''BOOTX64.EFI''"
  by (simp add: final_component_def example_config_def L_def)

lemma example_classify:
  "classify example_config (L ''bootx64.efi'') = Some Boot_architecture"
  "classify example_config (L ''bootmgfw.efi'') = Some Boot_manager"
  "classify example_config (L ''BCD'') = Some Bcd_file"
  "classify example_config (L ''boot.wim'') = Some Wim_file"
  "classify example_config (L ''a'') = None"
  unfolding classify_def example_final_component
  by (simp_all add: ci_equal_def L_def towupper_def)

text \<open>
  The theorem at the example directory and at a directory of the names \<^verbatim>\<open>a\<close> and
  \<^verbatim>\<open>boot.wim\<close>: the file \<^verbatim>\<open>BCD\<close> gets the BCD patcher, \<^verbatim>\<open>boot.wim\<close> the WIM patcher,
  the boot files and \<^verbatim>\<open>a\<close> get none, and the pass over \<^verbatim>\<open>a\<close> leaves the marker alone.
\<close>

theorem classification_first_rule_witness:
  "firmware_ok example_config (example_firmware example_directory) \<and>
   firmware_ok example_config (example_firmware short_name_directory) \<and>
   attribute_ok (read_info (dir_entry ''a'' archive 5 7)) \<and>
   1 \<le> sizeof_name example_config \<and>
   0 \<notin> set (EFI_REMOVABLE_MEDIA_FILE_NAME example_config) \<and>
   efi_bootarch example_config = L ''BOOTX64.EFI'' \<and>
   map vf_patch (file_table (final_state (efi_extract example_config
     (example_firmware example_directory) (startup example_config)))) =
     [None, None, Some Efi_patch_bcd] \<and>
   map vf_patch (file_table (final_state (efi_extract example_config
     (example_firmware short_name_directory) (startup example_config)))) =
     [None, Some Patch_wim] \<and>
   failure (add_file example_config (dir_entry ''a'' archive 5 7)
     (startup example_config)) = None \<and>
   vf_patch (vdisk_files (final_state (add_file example_config (dir_entry ''a'' archive 5 7)
     (startup example_config))) ! 0) = None \<and>
   bootmgfw (final_state (add_file example_config (dir_entry ''a'' archive 5 7)
     (startup example_config))) = bootmgfw (startup example_config)"
proof -
  have one: "1 \<le> sizeof_name example_config" by simp
  have nz: "0 \<notin> set (EFI_REMOVABLE_MEDIA_FILE_NAME example_config)"
    by (simp add: example_config_def L_def)
  have at: "attribute_ok (read_info (dir_entry name archive fsize handle))"
    for name fsize handle
    by (simp add: attribute_ok_def archive_def)
  have a1: "\<forall>r\<in>set (root_reads (example_firmware example_directory)).
      attribute_ok (read_info r)"
    by (simp add: example_directory_def at)
  have a2: "\<forall>r\<in>set (root_reads (example_firmware short_name_directory)).
      attribute_ok (read_info r)"
    by (simp add: short_name_directory_def at)
  have nm: "wstr (L ''a'' @ replicate n 0) = L ''a''" for n
    by (simp add: L_def wstr_Cons)
  note T1 = classification_first_rule [OF example_directory_ok a1 one nz]
  note T2 = classification_first_rule [OF short_name_directory_ok a2 one nz]
  have t1: "map vf_patch (file_table (final_state (efi_extract example_config
     (example_firmware example_directory) (startup example_config)))) =
     [None, None, Some Efi_patch_bcd]"
    using T1 by (simp add: example_directory_def example_names example_classify)
  have t2: "map vf_patch (file_table (final_state (efi_extract example_config
     (example_firmware short_name_directory) (startup example_config)))) =
     [None, Some Patch_wim]"
    using T2 by (simp add: short_name_directory_def example_names nm example_classify)
  have arch: "efi_bootarch example_config = L ''BOOTX64.EFI''"
    using T1 by (simp add: example_final_component)
  have m: "dir_entry ''a'' archive 5 7 \<in> set (root_reads (example_firmware short_name_directory))"
    by (simp add: short_name_directory_def)
  have sh: "idx (startup example_config) < VDISK_MAX_FILES example_config \<and>
      length (vdisk_files (startup example_config)) = VDISK_MAX_FILES example_config \<and>
      length (bootmgfw (startup example_config)) = sizeof_name example_config"
    by simp
  have old: "vf_patch (vdisk_files (startup example_config) ! 0) = None"
    by (simp add: startup_def zero_file_def numeral_3_eq_3)
  have "failure (add_file example_config (dir_entry ''a'' archive 5 7)
           (startup example_config)) = None \<and>
        vf_patch (vdisk_files (final_state (add_file example_config
           (dir_entry ''a'' archive 5 7) (startup example_config))) !
           idx (startup example_config)) =
          (case patch_of (classify example_config
                  (wstr (FileName (read_info (dir_entry ''a'' archive 5 7))))) of
             Some p \<Rightarrow> Some p
           | None \<Rightarrow> vf_patch (vdisk_files (startup example_config) !
                       idx (startup example_config))) \<and>
        bootmgfw (final_state (add_file example_config (dir_entry ''a'' archive 5 7)
           (startup example_config))) =
          (if boot_tag (classify example_config
                  (wstr (FileName (read_info (dir_entry ''a'' archive 5 7)))))
           then take (sizeof_name example_config - 1)
                  (FileName (read_info (dir_entry ''a'' archive 5 7))) @
                [last (bootmgfw (startup example_config))]
           else bootmgfw (startup example_config))"
    using T2 m sh by blast
  then have e: "failure (add_file example_config (dir_entry ''a'' archive 5 7)
       (startup example_config)) = None \<and>
     vf_patch (vdisk_files (final_state (add_file example_config (dir_entry ''a'' archive 5 7)
       (startup example_config))) ! 0) = None \<and>
     bootmgfw (final_state (add_file example_config (dir_entry ''a'' archive 5 7)
       (startup example_config))) = bootmgfw (startup example_config)"
    by (simp add: nm example_classify boot_tag_def old)
  show ?thesis
    using t1 t2 arch e example_directory_ok short_name_directory_ok at one nz
    by (simp only: simp_thms)
qed

subsection \<open>C6: the table and its capacity\<close>

text \<open>
  C6. Take a scan from the startup state in which the firmware keeps its side (both
  opens succeed, every read and open of an entry succeeds and the names are
  NUL-terminated) and enumerates \<open>N\<close> entries. If \<open>N \<le> VDISK_MAX_FILES\<close>, the scan does
  not end in the capacity error and the table holds exactly the \<open>N\<close> descriptors, in the
  order the firmware returned them (name, file handle, length and read function of
  each). If \<open>N > VDISK_MAX_FILES\<close>, the scan ends in the capacity error \<^verbatim>\<open>Too many files\<close>
  with the table holding the descriptors of the first \<open>VDISK_MAX_FILES\<close> entries and no
  other. Whatever the firmware does, the table never holds more than
  \<open>VDISK_MAX_FILES\<close> descriptors.
\<close>

theorem scan_fills_table:
  "(firmware_ok cfg fw \<and> 1 \<le> sizeof_name cfg \<longrightarrow>
      (length (root_reads fw) \<le> VDISK_MAX_FILES cfg \<longrightarrow>
         failure (efi_extract cfg fw (startup cfg)) \<noteq> Some Die_too_many_files \<and>
         map entry_fields (file_table (final_state (efi_extract cfg fw (startup cfg)))) =
         map (expected_fields cfg) (root_reads fw)) \<and>
      (VDISK_MAX_FILES cfg < length (root_reads fw) \<longrightarrow>
         failure (efi_extract cfg fw (startup cfg)) = Some Die_too_many_files \<and>
         map entry_fields (file_table (final_state (efi_extract cfg fw (startup cfg)))) =
         map (expected_fields cfg) (take (VDISK_MAX_FILES cfg) (root_reads fw)))) \<and>
   length (file_table (final_state (efi_extract cfg fw (startup cfg)))) \<le> VDISK_MAX_FILES cfg"
proof -
  have bound: "length (file_table (final_state (efi_extract cfg fw (startup cfg)))) \<le>
               VDISK_MAX_FILES cfg"
    using efi_extract_idx [of cfg fw] by (simp add: file_table_def)
  have small: "failure (efi_extract cfg fw (startup cfg)) \<noteq> Some Die_too_many_files \<and>
         map entry_fields (file_table (final_state (efi_extract cfg fw (startup cfg)))) =
         map (expected_fields cfg) (root_reads fw)"
    if "firmware_ok cfg fw" "1 \<le> sizeof_name cfg"
      "length (root_reads fw) \<le> VDISK_MAX_FILES cfg"
    using that by (simp add: efi_extract_ok passes_table)
  have large: "failure (efi_extract cfg fw (startup cfg)) = Some Die_too_many_files \<and>
         map entry_fields (file_table (final_state (efi_extract cfg fw (startup cfg)))) =
         map (expected_fields cfg) (take (VDISK_MAX_FILES cfg) (root_reads fw))"
    if "firmware_ok cfg fw" "1 \<le> sizeof_name cfg"
      "VDISK_MAX_FILES cfg < length (root_reads fw)"
    using that by (simp add: efi_extract_full passes_table)
  show ?thesis
    using bound small large by blast
qed

text \<open>
  The theorem at the example directory of three files, which fills the table of three
  entries, and at the same directory with a fourth file, which does not fit.
\<close>

theorem scan_fills_table_witness:
  "firmware_ok example_config (example_firmware example_directory) \<and>
   1 \<le> sizeof_name example_config \<and>
   length (root_reads (example_firmware example_directory)) \<le> VDISK_MAX_FILES example_config \<and>
   failure (efi_extract example_config (example_firmware example_directory)
     (startup example_config)) \<noteq> Some Die_too_many_files \<and>
   map entry_fields (file_table (final_state (efi_extract example_config
     (example_firmware example_directory) (startup example_config)))) =
   map (expected_fields example_config) example_directory \<and>
   firmware_ok example_config
     (example_firmware (example_directory @ [dir_entry ''boot.wim'' archive 8192 4])) \<and>
   VDISK_MAX_FILES example_config <
     length (root_reads (example_firmware (example_directory @ [dir_entry ''boot.wim'' archive 8192 4]))) \<and>
   failure (efi_extract example_config
     (example_firmware (example_directory @ [dir_entry ''boot.wim'' archive 8192 4]))
     (startup example_config)) = Some Die_too_many_files \<and>
   map entry_fields (file_table (final_state (efi_extract example_config
     (example_firmware (example_directory @ [dir_entry ''boot.wim'' archive 8192 4]))
     (startup example_config)))) =
   map (expected_fields example_config) example_directory"
proof -
  have big: "VDISK_MAX_FILES example_config <
     length (root_reads (example_firmware (example_directory @ [dir_entry ''boot.wim'' archive 8192 4])))"
    by (simp add: example_directory_def)
  have tk: "take (VDISK_MAX_FILES example_config)
      (root_reads (example_firmware (example_directory @ [dir_entry ''boot.wim'' archive 8192 4]))) =
      example_directory"
    by (simp add: example_directory_def)
  have a: "failure (efi_extract example_config (example_firmware example_directory)
     (startup example_config)) \<noteq> Some Die_too_many_files \<and>
   map entry_fields (file_table (final_state (efi_extract example_config
     (example_firmware example_directory) (startup example_config)))) =
   map (expected_fields example_config) (root_reads (example_firmware example_directory))"
    using scan_fills_table [of example_config "example_firmware example_directory"]
      example_directory_ok example_directory_small(1,3) by blast
  have b: "failure (efi_extract example_config
     (example_firmware (example_directory @ [dir_entry ''boot.wim'' archive 8192 4]))
     (startup example_config)) = Some Die_too_many_files \<and>
   map entry_fields (file_table (final_state (efi_extract example_config
     (example_firmware (example_directory @ [dir_entry ''boot.wim'' archive 8192 4]))
     (startup example_config)))) =
   map (expected_fields example_config) (take (VDISK_MAX_FILES example_config)
      (root_reads (example_firmware (example_directory @ [dir_entry ''boot.wim'' archive 8192 4]))))"
    using scan_fills_table [of example_config
        "example_firmware (example_directory @ [dir_entry ''boot.wim'' archive 8192 4])"]
      example_wim_ok example_directory_small(1) big by blast
  have a': "map entry_fields (file_table (final_state (efi_extract example_config
     (example_firmware example_directory) (startup example_config)))) =
   map (expected_fields example_config) example_directory"
    using a by simp
  have b': "map entry_fields (file_table (final_state (efi_extract example_config
     (example_firmware (example_directory @ [dir_entry ''boot.wim'' archive 8192 4]))
     (startup example_config)))) =
   map (expected_fields example_config) example_directory"
    using b unfolding tk by blast
  show ?thesis
    using a a' b b' example_directory_ok example_wim_ok example_directory_small(1,3) big
    by blast
qed

subsection \<open>C7: the check for a boot file\<close>

text \<open>
  C7. Take a scan from the startup state in which the firmware keeps its side and
  enumerates at most \<open>VDISK_MAX_FILES\<close> entries, with a \<^verbatim>\<open>bootmgfw\<close> array of at least
  two code units and a non-empty architecture boot file name. The scan ends in a fatal
  error if and only if no entry's name equals, up to case, the architecture boot file
  name or \<^verbatim>\<open>bootmgfw.efi\<close>; the error is then the missing-boot-file one and carries the
  architecture boot file name; and in either case the table holds the descriptors of
  all entries.
\<close>

theorem boot_file_check:
  assumes "firmware_ok cfg fw" "length (root_reads fw) \<le> VDISK_MAX_FILES cfg"
    "2 \<le> sizeof_name cfg" "wstr (efi_bootarch cfg) \<noteq> []"
  shows "(failure (efi_extract cfg fw (startup cfg)) =
            (if \<exists>r\<in>set (root_reads fw). is_boot_name cfg (wstr (FileName (read_info r)))
             then None else Some (Die_no_boot_file (wstr (efi_bootarch cfg))))) \<and>
         map entry_fields (file_table (final_state (efi_extract cfg fw (startup cfg)))) =
         map (expected_fields cfg) (root_reads fw)"
proof -
  let ?rs = "root_reads fw"
  let ?P = "\<lambda>r. is_boot_name cfg (wstr (FileName (read_info r)))"
  have one: "1 \<le> sizeof_name cfg" using assms(3) by simp
  have eq: "efi_extract cfg fw (startup cfg) =
         (if hd (bootmgfw (passes cfg ?rs (startup cfg))) = 0
          then Inl (Die_no_boot_file (wstr (efi_bootarch cfg)), passes cfg ?rs (startup cfg))
          else Inr (passes cfg ?rs (startup cfg)))"
    using assms(1) one assms(2) by (rule efi_extract_ok)
  have table: "map entry_fields (file_table (final_state (efi_extract cfg fw (startup cfg)))) =
         map (expected_fields cfg) ?rs"
    using assms(2) by (simp add: eq passes_table)
  have head: "hd (bootmgfw (passes cfg ?rs (startup cfg))) = 0 \<longleftrightarrow> \<not> (\<exists>r\<in>set ?rs. ?P r)"
  proof (cases "\<exists>r\<in>set ?rs. ?P r")
    case True
    then obtain before r after where
      sp: "?rs = before @ r # after" "?P r" "\<forall>r'\<in>set after. \<not> ?P r'"
      using split_last_match [of ?rs ?P] by blast
    have "r \<in> set ?rs" using sp(1) by simp
    then have ok: "entry_ok cfg r" using assms(1) by (simp add: firmware_ok_def)
    have "wstr (FileName (read_info r)) \<noteq> []"
      using sp(2) assms(4) by (rule boot_name_nonempty)
    then obtain c cs where fn: "FileName (read_info r) = c # cs" "c \<noteq> 0"
      by (cases "FileName (read_info r)") (auto simp: wstr_Cons split: if_splits)
    have "bootmgfw (passes cfg ?rs (startup cfg)) =
          take (sizeof_name cfg - 1) (FileName (read_info r)) @ [last (bootmgfw (startup cfg))]"
      unfolding sp(1) using sp(2,3) by (rule passes_bootmgfw_last_match)
    moreover have "take (sizeof_name cfg - 1) (FileName (read_info r)) =
                   c # take (sizeof_name cfg - 2) cs"
      using assms(3) by (simp add: fn take_Cons' numeral_2_eq_2)
    ultimately show ?thesis using True fn by simp
  next
    case False
    then have "bootmgfw (passes cfg ?rs (startup cfg)) = bootmgfw (startup cfg)"
      by (intro passes_bootmgfw_none) blast
    then show ?thesis using False assms(3) by (simp add: hd_replicate)
  qed
  show ?thesis
    using table head by (simp add: eq)
qed

text \<open>
  The theorem at the example directory, which has boot files, and at a directory of
  \<^verbatim>\<open>BCD\<close> and \<^verbatim>\<open>boot.wim\<close>, which has none and still gets its two descriptors.
\<close>

theorem boot_file_check_witness:
  "firmware_ok example_config (example_firmware example_directory) \<and>
   length (root_reads (example_firmware example_directory)) \<le> VDISK_MAX_FILES example_config \<and>
   2 \<le> sizeof_name example_config \<and>
   wstr (efi_bootarch example_config) \<noteq> [] \<and>
   failure (efi_extract example_config (example_firmware example_directory)
     (startup example_config)) = None \<and>
   firmware_ok example_config
     (example_firmware [dir_entry ''BCD'' archive 4096 3, dir_entry ''boot.wim'' archive 8192 4]) \<and>
   failure (efi_extract example_config
     (example_firmware [dir_entry ''BCD'' archive 4096 3, dir_entry ''boot.wim'' archive 8192 4])
     (startup example_config)) = Some (Die_no_boot_file (L ''BOOTX64.EFI'')) \<and>
   length (file_table (final_state (efi_extract example_config
     (example_firmware [dir_entry ''BCD'' archive 4096 3, dir_entry ''boot.wim'' archive 8192 4])
     (startup example_config)))) = 2"
proof -
  let ?fw = "example_firmware [dir_entry ''BCD'' archive 4096 3, dir_entry ''boot.wim'' archive 8192 4]"
  have arch: "wstr (efi_bootarch example_config) = L ''BOOTX64.EFI''"
    by (simp add: bootarch_example) (simp add: L_def wstr_def)
  then have ne: "wstr (efi_bootarch example_config) \<noteq> []"
    by (simp add: L_def)
  have small: "length (root_reads ?fw) \<le> VDISK_MAX_FILES example_config" by simp
  have yes: "\<exists>r\<in>set (root_reads (example_firmware example_directory)).
      is_boot_name example_config (wstr (FileName (read_info r)))"
    by (simp add: example_directory_def example_names example_boot_names)
  have no: "\<not> (\<exists>r\<in>set (root_reads ?fw).
      is_boot_name example_config (wstr (FileName (read_info r))))"
    by (simp add: example_names example_boot_names)
  have a: "failure (efi_extract example_config (example_firmware example_directory)
     (startup example_config)) = None"
    using boot_file_check [OF example_directory_ok example_directory_small(3,2) ne] yes
    by simp
  have b: "failure (efi_extract example_config ?fw (startup example_config)) =
      Some (Die_no_boot_file (L ''BOOTX64.EFI''))"
    "map entry_fields (file_table (final_state (efi_extract example_config ?fw
       (startup example_config)))) = map (expected_fields example_config) (root_reads ?fw)"
    using boot_file_check [OF example_no_boot_ok small example_directory_small(2) ne] no arch
    by simp_all
  have "length (map entry_fields (file_table (final_state (efi_extract example_config ?fw
       (startup example_config))))) = 2"
    unfolding b(2) by simp
  then show ?thesis
    using a b(1) example_directory_ok example_no_boot_ok example_directory_small ne by simp
qed

subsection \<open>C9: which match the boot-file marker holds\<close>

text \<open>
  C9, as amended. In a scan from the startup state in which the firmware keeps its
  side and enumerates at most \<open>VDISK_MAX_FILES\<close> entries, the string in \<^verbatim>\<open>bootmgfw\<close>
  at the end is the name of the last entry that matches the architecture boot file
  name or \<^verbatim>\<open>bootmgfw.efi\<close>, cut to one code unit less than the array holds: every
  match overwrites the marker.
\<close>

theorem boot_marker_last_match:
  assumes "firmware_ok cfg fw" "length (root_reads fw) \<le> VDISK_MAX_FILES cfg"
    "1 \<le> sizeof_name cfg"
    "root_reads fw = before @ r # after"
    "is_boot_name cfg (wstr (FileName (read_info r)))"
    "\<forall>r'\<in>set after. \<not> is_boot_name cfg (wstr (FileName (read_info r')))"
  shows "wstr (bootmgfw (final_state (efi_extract cfg fw (startup cfg)))) =
         take (sizeof_name cfg - 1) (wstr (FileName (read_info r)))"
proof -
  have "r \<in> set (root_reads fw)" using assms(4) by simp
  then have t: "0 \<in> set (FileName (read_info r))"
    using assms(1) by (simp add: firmware_ok_def entry_ok_def)
  have "bootmgfw (passes cfg (root_reads fw) (startup cfg)) =
        take (sizeof_name cfg - 1) (FileName (read_info r)) @ [last (bootmgfw (startup cfg))]"
    unfolding assms(4) using assms(5,6) by (rule passes_bootmgfw_last_match)
  also have "\<dots> = take (sizeof_name cfg - 1) (FileName (read_info r)) @ [0]"
    using assms(3) by simp
  finally have "wstr (bootmgfw (passes cfg (root_reads fw) (startup cfg))) =
        take (sizeof_name cfg - 1) (wstr (FileName (read_info r)))"
    using wstr_take_terminated [OF t] by simp
  then show ?thesis
    using efi_extract_ok [OF assms(1,3,2)] by simp
qed

text \<open>
  C9 as stated fails: in the example directory \<^verbatim>\<open>bootx64.efi\<close> comes first and
  \<^verbatim>\<open>bootmgfw.efi\<close> second, both match, and the marker ends as \<^verbatim>\<open>bootmgfw.efi\<close>.
\<close>

theorem two_boot_files_counterexample:
  "is_boot_name example_config (wstr (FileName (read_info (example_directory ! 0)))) \<and>
   is_boot_name example_config (wstr (FileName (read_info (example_directory ! 1)))) \<and>
   wstr (FileName (read_info (example_directory ! 0))) = L ''bootx64.efi'' \<and>
   wstr (bootmgfw (final_state (efi_extract example_config
      (example_firmware example_directory) (startup example_config)))) = L ''bootmgfw.efi''"
proof -
  have c: "1 \<le> sizeof_name example_config"
    "length (root_reads (example_firmware example_directory)) \<le> VDISK_MAX_FILES example_config"
    by (simp_all add: example_directory_def)
  have "wstr (bootmgfw (final_state (efi_extract example_config
      (example_firmware example_directory) (startup example_config)))) = L ''bootmgfw.efi''"
    unfolding efi_extract_ok [OF example_directory_ok c]
    by (simp add: example_directory_def next_state_bootmgfw example_names example_boot_names
        marker_string [where m = 31, simplified])
      (simp add: example_eval)
  then show ?thesis
    by (simp add: example_directory_def example_names example_boot_names)
qed

text \<open>The theorem at the example directory, whose last match is its second entry.\<close>

theorem boot_marker_last_match_witness:
  "firmware_ok example_config (example_firmware example_directory) \<and>
   length (root_reads (example_firmware example_directory)) \<le> VDISK_MAX_FILES example_config \<and>
   1 \<le> sizeof_name example_config \<and>
   root_reads (example_firmware example_directory) =
     [dir_entry ''bootx64.efi'' archive 1024 1] @
     dir_entry ''bootmgfw.efi'' archive 2048 2 # [dir_entry ''BCD'' archive 4096 3] \<and>
   is_boot_name example_config
     (wstr (FileName (read_info (dir_entry ''bootmgfw.efi'' archive 2048 2)))) \<and>
   \<not> is_boot_name example_config
     (wstr (FileName (read_info (dir_entry ''BCD'' archive 4096 3)))) \<and>
   wstr (bootmgfw (final_state (efi_extract example_config
      (example_firmware example_directory) (startup example_config)))) =
   take (sizeof_name example_config - 1)
     (wstr (FileName (read_info (dir_entry ''bootmgfw.efi'' archive 2048 2))))"
proof -
  have sp: "root_reads (example_firmware example_directory) =
     [dir_entry ''bootx64.efi'' archive 1024 1] @
     dir_entry ''bootmgfw.efi'' archive 2048 2 # [dir_entry ''BCD'' archive 4096 3]"
    by (simp add: example_directory_def)
  have m: "is_boot_name example_config
     (wstr (FileName (read_info (dir_entry ''bootmgfw.efi'' archive 2048 2))))"
    by (simp add: example_names example_boot_names)
  have n: "\<not> is_boot_name example_config
     (wstr (FileName (read_info (dir_entry ''BCD'' archive 4096 3))))"
    by (simp add: example_names example_boot_names)
  then have n': "\<forall>r'\<in>set [dir_entry ''BCD'' archive 4096 3].
      \<not> is_boot_name example_config (wstr (FileName (read_info r')))"
    by simp
  show ?thesis
    using boot_marker_last_match [OF example_directory_ok example_directory_small(3,1) sp m n']
      example_directory_ok example_directory_small(3,1) sp m n
    by (simp only: simp_thms)
qed

subsection \<open>C10: the boot-file marker stays NUL-terminated\<close>

text \<open>
  C10. For an array \<^verbatim>\<open>bootmgfw\<close> of at least one code unit, after every scan from the
  startup state, whatever the firmware does and however the scan ends, the array has
  its length and its last code unit is still the NUL it started with; and every update
  of the marker copies the first \<^verbatim>\<open>sizeof ( vfile->name ) - 1\<close> code units at the name
  and keeps the last code unit of the array, however long the name is.
\<close>

theorem bootmgfw_terminated:
  assumes "1 \<le> sizeof_name cfg"
  shows "length (bootmgfw (final_state (efi_extract cfg fw (startup cfg)))) = sizeof_name cfg \<and>
         last (bootmgfw (final_state (efi_extract cfg fw (startup cfg)))) = 0 \<and>
         (\<forall>info st. length (bootmgfw st) = sizeof_name cfg \<and>
             sizeof_name cfg \<le> length (FileName info) \<longrightarrow>
             copy_bootmgfw cfg info st =
             Inr (st\<lparr>bootmgfw :=
                    take (sizeof_name cfg - 1) (FileName info) @ [last (bootmgfw st)]\<rparr>))"
  using efi_extract_marker [OF assms, of fw] copy_bootmgfw_eq [of _ cfg] assms by blast

text \<open>
  The theorem at the example directory, and the update at a name of 35 characters:
  the marker takes its first 31 and keeps its NUL.
\<close>

theorem bootmgfw_terminated_witness:
  "1 \<le> sizeof_name example_config \<and>
   length (bootmgfw (final_state (efi_extract example_config
     (example_firmware example_directory) (startup example_config)))) = 32 \<and>
   last (bootmgfw (final_state (efi_extract example_config
     (example_firmware example_directory) (startup example_config)))) = 0 \<and>
   length (bootmgfw (startup example_config)) = sizeof_name example_config \<and>
   sizeof_name example_config \<le> length (FileName long_name_info) \<and>
   copy_bootmgfw example_config long_name_info (startup example_config) =
     Inr ((startup example_config)\<lparr>bootmgfw := replicate 31 0x41 @ [0]\<rparr>)"
proof -
  have one: "1 \<le> sizeof_name example_config" by simp
  have h: "length (bootmgfw (startup example_config)) = sizeof_name example_config \<and>
      sizeof_name example_config \<le> length (FileName long_name_info)"
    by (simp add: long_name_info_def)
  have tk: "take (sizeof_name example_config - 1) (FileName long_name_info) = replicate 31 0x41"
    by (simp add: long_name_info_def)
  have l: "last (bootmgfw (startup example_config)) = 0" by simp
  note T = bootmgfw_terminated [OF one, of "example_firmware example_directory"]
  have "copy_bootmgfw example_config long_name_info (startup example_config) =
     Inr ((startup example_config)\<lparr>bootmgfw :=
        take (sizeof_name example_config - 1) (FileName long_name_info) @
        [last (bootmgfw (startup example_config))]\<rparr>)"
    using T h by blast
  then have "copy_bootmgfw example_config long_name_info (startup example_config) =
     Inr ((startup example_config)\<lparr>bootmgfw := replicate 31 0x41 @ [0]\<rparr>)"
    unfolding tk l .
  then show ?thesis
    using T h one by simp
qed


end
